theory Spec2Isabelle
  imports Complex_Main "HOL-Library.Sublist"
begin

section \<open>Data model of the uploader (frontend, \<open>App\<close> component)\<close>

text \<open>
  The frontend keeps a list of \<open>FileInfo\<close> objects in React state (\<open>files\<close>) and a
  batch-level message (\<open>fileError\<close>). Every change of \<open>files\<close> is a functional update
  \<open>setFiles((prev) => ...)\<close>; React applies these updaters in the order they were queued,
  so the model applies them one after the other to the list.

  Field names follow the source; \<open>size\<close>, \<open>id\<close> and \<open>file\<close> carry the suffix \<open>_f\<close>
  because the plain names are taken in Isabelle/HOL, and the properties of the
  authorization response carry the suffix \<open>_p\<close> (\<open>url\<close> is a field of \<open>FileInfo\<close>).
\<close>

datatype status = Pending | Uploading | Success | Error

text \<open>
  The values of a JavaScript \<open>number\<close> that \<open>Math.round(loaded * 100 / d)\<close> can take for
  byte counts \<open>loaded\<close> and \<open>d\<close>: an integer, \<open>NaN\<close> (\<open>0 / 0\<close>) or \<open>Infinity\<close> (\<open>n / 0\<close>).
\<close>

datatype number = Num int | NaN | Infinity

text \<open>The browser's \<open>File\<close>: the three properties the component reads.\<close>

record File =
  name :: string
  size_f :: nat
  type :: string

text \<open>
  \<open>interface FileInfo\<close>: it repeats \<open>name\<close>, \<open>size\<close> and \<open>type\<close> of the file and adds
  the fields below. The optional fields \<open>url?\<close> and \<open>errorMessage?\<close> are options.
\<close>

record FileInfo = File +
  file_f :: File
  previewUrl :: string
  id_f :: string
  status :: status
  progress :: number
  url :: "string option"
  errorMessage :: "string option"

text \<open>
  The JSON body of the authorization response as the client reads it
  (\<open>presignedUrl.url\<close>, \<open>presignedUrl.key\<close>, \<open>presignedUrl.bucket\<close>); a property the
  body does not have reads as \<open>undefined\<close>, here \<open>None\<close>.
\<close>

record presigned =
  url_p :: "string option"
  key_p :: "string option"
  bucket_p :: "string option"

text \<open>A value inside a template literal: \<open>undefined\<close> prints as the text "undefined".\<close>

definition template :: "string option \<Rightarrow> string" where
  "template v = (case v of None \<Rightarrow> ''undefined'' | Some s \<Rightarrow> s)"

section \<open>The four state updates of \<open>uploadFile\<close>\<close>

text \<open>
  \<open>uploadFile\<close> changes the state in four places, each of the form
  \<open>setFiles((prev) => prev.map((f) => f.id === fileInfo.id ? {...f, CHANGES} : f))\<close>.
  \<open>update\<close> names the four object spreads and \<open>apply_update\<close> is the spread itself.
\<close>

datatype update =
    ToUploading
  | ToProgress number
  | ToSuccess presigned
  | ToError string

fun apply_update :: "update \<Rightarrow> FileInfo \<Rightarrow> FileInfo" where
  "apply_update ToUploading f = f\<lparr>status := Uploading, progress := Num 0\<rparr>"
| "apply_update (ToProgress percentCompleted) f = f\<lparr>progress := percentCompleted\<rparr>"
| "apply_update (ToSuccess presignedUrl) f =
     f\<lparr>status := Success, progress := Num 100,
       url := Some (''https://'' @ template (bucket_p presignedUrl) @ ''.s3.amazonaws.com/''
                    @ template (key_p presignedUrl))\<rparr>"
| "apply_update (ToError message) f =
     f\<lparr>status := Error, progress := Num 0, errorMessage := Some message\<rparr>"

definition setFiles :: "string \<Rightarrow> update \<Rightarrow> FileInfo list \<Rightarrow> FileInfo list" where
  "setFiles i u prev = map (\<lambda>f. if id_f f = i then apply_update u f else f) prev"

text \<open>
  \<open>removeFile\<close>: \<open>prev.filter((f) => f.id !== id)\<close>; before that it revokes the preview URL
  of the first record with this id, when that URL is a non-empty string.
\<close>

definition removeFile :: "string \<Rightarrow> FileInfo list \<Rightarrow> FileInfo list" where
  "removeFile i prev = filter (\<lambda>f. id_f f \<noteq> i) prev"

definition removeFile_revokes :: "string \<Rightarrow> FileInfo list \<Rightarrow> string option" where
  "removeFile_revokes i prev =
     (case find (\<lambda>f. id_f f = i) prev of
        None \<Rightarrow> None
      | Some fileToRemove \<Rightarrow>
          if previewUrl fileToRemove \<noteq> [] then Some (previewUrl fileToRemove) else None)"

section \<open>One upload attempt: \<open>uploadFile\<close>\<close>

text \<open>
  What the outside world does during one call of \<open>uploadFile\<close> is an \<open>attempt\<close>: how
  \<open>fetch\<close> settles, which progress events axios delivers, and how \<open>axios.put\<close> settles.
  A rejected promise carries the thrown value; the \<open>catch\<close> block only asks whether it is
  an \<open>Error\<close> instance and, if so, for its message.
\<close>

datatype thrown = ErrorInstance string | OtherValue

datatype 'a settled = Fulfilled 'a | Rejected thrown

record response =
  ok :: bool
  statusText :: string
  json :: "presigned settled"

record progressEvent =
  loaded :: nat
  total :: "nat option"

record attempt =
  fetch_result :: "response settled"
  progressEvents :: "progressEvent list"
  put_result :: "unit settled"

text \<open>
  The arithmetic of the callback is IEEE-754 double arithmetic. The byte counts are
  non-negative integers that are doubles (every integer below \<open>2^53\<close> is one); a positive
  double is \<open>m * 2^e\<close> with a mantissa \<open>2^52 \<le> m \<le> 2^53\<close>, here the pair \<open>(m, e)\<close>. The
  range of the exponent is not modelled (a quotient of byte counts neither overflows nor is
  subnormal).
\<close>

text \<open>The number of binary digits of \<open>n\<close>.\<close>

function bit_length :: "nat \<Rightarrow> nat" where
  "bit_length n = (if n = 0 then 0 else Suc (bit_length (n div 2)))"
  by pat_completeness auto
termination
  by (relation "measure id") auto

declare bit_length.simps [simp del]

text \<open>The integer nearest to \<open>n / d\<close>, a tie going to the even one (\<open>d > 0\<close>).\<close>

definition round_half_even :: "nat \<Rightarrow> nat \<Rightarrow> nat" where
  "round_half_even n d =
     (let q = n div d; r = n mod d in
      if 2 * r < d then q else if d < 2 * r then q + 1 else if even q then q else q + 1)"

text \<open>The integer \<open>t\<close> with \<open>2^t \<le> n / d < 2^(t + 1)\<close>, for \<open>n > 0\<close> and \<open>d > 0\<close>.\<close>

definition floor_log2 :: "nat \<Rightarrow> nat \<Rightarrow> int" where
  "floor_log2 n d =
     (let t = int (bit_length n) - int (bit_length d) in
      if (if 0 \<le> t then d * 2 ^ nat t \<le> n else d \<le> n * 2 ^ nat (- t)) then t else t - 1)"

text \<open>
  The double nearest to \<open>n / d\<close> (round to nearest, ties to even), for \<open>n > 0\<close> and
  \<open>d > 0\<close>: the quotient is scaled into \<open>[2^52, 2^53)\<close> and rounded to an integer.
\<close>

definition double_quotient :: "nat \<Rightarrow> nat \<Rightarrow> nat \<times> int" where
  "double_quotient n d =
     (let e = floor_log2 n d - 52 in
      (if 0 \<le> e then round_half_even n (d * 2 ^ nat e)
       else round_half_even (n * 2 ^ nat (- e)) d, e))"

text \<open>The double nearest to the integer \<open>n\<close>; it is an integer, and \<open>n\<close> itself below \<open>2^53\<close>.\<close>

definition double_of_nat :: "nat \<Rightarrow> nat" where
  "double_of_nat n =
     (if n < 2 ^ 53 then n else case double_quotient n 1 of (m, e) \<Rightarrow> m * 2 ^ nat e)"

text \<open>
  \<open>Math.round\<close> of the double \<open>m * 2^e\<close>: the integer nearest to it, a half rounded up,
  that is \<open>floor (m * 2^e + 1/2)\<close>.
\<close>

definition math_round :: "nat \<times> int \<Rightarrow> int" where
  "math_round x =
     (case x of (m, e) \<Rightarrow>
        if 0 \<le> e then int (m * 2 ^ nat e)
        else int ((2 * m + 2 ^ nat (- e)) div 2 ^ nat (1 - e)))"

text \<open>
  \<open>Math.round((loaded * 100) / d)\<close> for \<open>d > 0\<close>: the product is rounded to a double, the
  quotient of the two doubles is rounded to a double, and \<open>Math.round\<close> is applied to it.
\<close>

definition percent_of :: "nat \<Rightarrow> nat \<Rightarrow> int" where
  "percent_of n d =
     (if n = 0 then 0 else math_round (double_quotient (double_of_nat (n * 100)) d))"



text \<open>
  The callback \<open>onUploadProgress\<close>:
  \<open>Math.round((progressEvent.loaded * 100) / (progressEvent.total || fileInfo.size))\<close>.
  \<open>||\<close> takes the file's size when \<open>total\<close> is \<open>undefined\<close> or \<open>0\<close>. A division by zero gives
  \<open>NaN\<close> for \<open>0 / 0\<close> and \<open>Infinity\<close> otherwise, and \<open>Math.round\<close> returns them as they are.
\<close>

definition total_or_size :: "progressEvent \<Rightarrow> FileInfo \<Rightarrow> nat" where
  "total_or_size progressEvent fileInfo =
     (case total progressEvent of
        None \<Rightarrow> size_f fileInfo
      | Some t \<Rightarrow> if t = 0 then size_f fileInfo else t)"

definition percentCompleted :: "progressEvent \<Rightarrow> FileInfo \<Rightarrow> number" where
  "percentCompleted progressEvent fileInfo =
     (let d = total_or_size progressEvent fileInfo in
      if d = 0 then (if loaded progressEvent = 0 then NaN else Infinity)
      else Num (percent_of (loaded progressEvent) d))"

text \<open>
  The effects of \<open>uploadFile\<close> in program order: a queued state update for a record id,
  the authorization request \<open>fetch(API_URL/get-upload-url, {filename, filetype})\<close>, and
  the transfer \<open>axios.put(presignedUrl.url, file, Content-Type)\<close>.
\<close>

datatype effect =
    SetFiles string update
  | Fetch string string
  | AxiosPut "string option" string

text \<open>The \<open>catch\<close> block.\<close>

definition catch_block :: "FileInfo \<Rightarrow> thrown \<Rightarrow> effect list" where
  "catch_block fileInfo err =
     [SetFiles (id_f fileInfo)
        (ToError (case err of ErrorInstance message \<Rightarrow> message
                  | OtherValue \<Rightarrow> ''Failed to upload file''))]"

text \<open>The code of \<open>uploadFile\<close> up to its first \<open>await\<close>.\<close>

definition uploadFile_sync :: "FileInfo \<Rightarrow> effect list" where
  "uploadFile_sync fileInfo =
     [SetFiles (id_f fileInfo) ToUploading, Fetch (name fileInfo) (type fileInfo)]"

text \<open>The rest of \<open>uploadFile\<close>, after \<open>fetch\<close> has settled.\<close>

definition uploadFile_async :: "FileInfo \<Rightarrow> attempt \<Rightarrow> effect list" where
  "uploadFile_async fileInfo a =
     (case fetch_result a of
        Rejected err \<Rightarrow> catch_block fileInfo err
      | Fulfilled response \<Rightarrow>
          if \<not> ok response then
            catch_block fileInfo
              (ErrorInstance (''Failed to get upload URL: '' @ statusText response))
          else
            (case json response of
               Rejected err \<Rightarrow> catch_block fileInfo err
             | Fulfilled presignedUrl \<Rightarrow>
                 [AxiosPut (url_p presignedUrl) (type fileInfo)]
                 @ map (\<lambda>progressEvent.
                          SetFiles (id_f fileInfo)
                            (ToProgress (percentCompleted progressEvent fileInfo)))
                       (progressEvents a)
                 @ (case put_result a of
                      Rejected err \<Rightarrow> catch_block fileInfo err
                    | Fulfilled _ \<Rightarrow> [SetFiles (id_f fileInfo) (ToSuccess presignedUrl)])))"

definition uploadFile :: "FileInfo \<Rightarrow> attempt \<Rightarrow> effect list" where
  "uploadFile fileInfo a = uploadFile_sync fileInfo @ uploadFile_async fileInfo a"

section \<open>Intake: \<open>validateAndAddFiles\<close>\<close>

definition MAX_FILE_SIZE :: nat where
  "MAX_FILE_SIZE = 15 * 1024 * 1024"

definition ALLOWED_TYPES :: "string list" where
  "ALLOWED_TYPES = [''image/jpeg'', ''image/png'', ''image/gif'', ''video/mp4'', ''video/quicktime'']"

text \<open>
  The two sources of fresh names, \<open>crypto.randomUUID()\<close> and \<open>URL.createObjectURL(file)\<close>,
  are parameters: the value each returns at its \<open>n\<close>-th call. The state counts the calls
  made so far (\<open>created\<close>; both are called once for every accepted file).
\<close>

record browser =
  randomUUID :: "nat \<Rightarrow> string"
  createObjectURL :: "nat \<Rightarrow> string"

text \<open>\<open>invalidFiles.join(", ")\<close>.\<close>

fun join :: "string list \<Rightarrow> string" where
  "join [] = []"
| "join [x] = x"
| "join (x # y # ys) = x @ '', '' @ join (y # ys)"

text \<open>
  The object pushed to \<open>newFiles\<close> for an accepted file; \<open>n\<close> is the number of ids drawn
  before it.
\<close>

definition newFileInfo :: "browser \<Rightarrow> nat \<Rightarrow> File \<Rightarrow> FileInfo" where
  "newFileInfo env n selectedFile =
     \<lparr>name = name selectedFile, size_f = size_f selectedFile, type = type selectedFile,
      file_f = selectedFile,
      previewUrl = createObjectURL env n,
      id_f = randomUUID env n,
      status = Pending, progress = Num 0, url = None, errorMessage = None\<rparr>"

text \<open>
  The body of the \<open>forEach\<close> loop, on the two arrays \<open>newFiles\<close> and \<open>invalidFiles\<close>
  (\<open>push\<close> appends at the end). \<open>n0\<close> is the number of ids drawn before this batch.
\<close>

definition validateOne ::
  "browser \<Rightarrow> nat \<Rightarrow> File \<Rightarrow> FileInfo list \<times> string list \<Rightarrow> FileInfo list \<times> string list" where
  "validateOne env n0 selectedFile arrays =
     (case arrays of (newFiles, invalidFiles) \<Rightarrow>
        if type selectedFile \<notin> set ALLOWED_TYPES then
          (newFiles, invalidFiles @ [name selectedFile @ '' (unsupported type)''])
        else if size_f selectedFile > MAX_FILE_SIZE then
          (newFiles, invalidFiles @ [name selectedFile @ '' (exceeds 15MB limit)''])
        else
          (newFiles @ [newFileInfo env (n0 + length newFiles) selectedFile], invalidFiles))"

definition validateAll :: "browser \<Rightarrow> nat \<Rightarrow> File list \<Rightarrow> FileInfo list \<times> string list" where
  "validateAll env n0 selectedFiles = fold (validateOne env n0) selectedFiles ([], [])"

section \<open>The component's state and its handlers\<close>

text \<open>
  \<open>files\<close> and \<open>fileError\<close> are the React state. \<open>created\<close> counts the ids drawn,
  \<open>requests\<close> logs the network requests issued so far, and \<open>inflight\<close> holds, for every
  call of \<open>uploadFile\<close> that is suspended at an \<open>await\<close>, the record id it was called for
  and the effects it has still to perform.
\<close>

record app =
  files :: "FileInfo list"
  fileError :: string
  created :: nat
  requests :: "effect list"
  inflight :: "(string \<times> effect list) list"

fun perform :: "effect \<Rightarrow> app \<Rightarrow> app" where
  "perform (SetFiles i u) s = s\<lparr>files := setFiles i u (files s)\<rparr>"
| "perform (Fetch filename filetype) s = s\<lparr>requests := requests s @ [Fetch filename filetype]\<rparr>"
| "perform (AxiosPut target contentType) s =
     s\<lparr>requests := requests s @ [AxiosPut target contentType]\<rparr>"

text \<open>
  A call \<open>uploadFile(fileInfo)\<close> from a handler: the code before the first \<open>await\<close> runs
  at once, the rest is suspended.
\<close>

definition call_uploadFile :: "FileInfo \<Rightarrow> attempt \<Rightarrow> app \<Rightarrow> app" where
  "call_uploadFile fileInfo a s =
     (let s' = fold perform (uploadFile_sync fileInfo) s
      in s'\<lparr>inflight := inflight s' @ [(id_f fileInfo, uploadFile_async fileInfo a)]\<rparr>)"

text \<open>
  \<open>validateAndAddFiles\<close>. \<open>attempts\<close> says, for the id of each record whose upload is
  started, how that upload will go.
\<close>

definition validateAndAddFiles ::
  "browser \<Rightarrow> (string \<Rightarrow> attempt) \<Rightarrow> File list \<Rightarrow> app \<Rightarrow> app" where
  "validateAndAddFiles env attempts selectedFiles s =
     (let s1 = s\<lparr>fileError := []\<rparr> in
      if length selectedFiles > 0 then
        (case validateAll env (created s1) selectedFiles of (newFiles, invalidFiles) \<Rightarrow>
           let s2 = (if length invalidFiles > 0
                     then s1\<lparr>fileError := ''Some files were not added: '' @ join invalidFiles\<rparr>
                     else s1);
               s3 = s2\<lparr>files := files s2 @ newFiles, created := created s2 + length newFiles\<rparr>
           in fold (\<lambda>fileInfo. call_uploadFile fileInfo (attempts (id_f fileInfo))) newFiles s3)
      else s1)"

text \<open>
  \<open>retryUpload\<close>: \<open>files.find((f) => f.id === id)\<close>, and \<open>uploadFile(fileToRetry)\<close> when a
  record was found.
\<close>

definition retryUpload :: "string \<Rightarrow> attempt \<Rightarrow> app \<Rightarrow> app" where
  "retryUpload i a s =
     (case find (\<lambda>f. id_f f = i) (files s) of
        None \<Rightarrow> s
      | Some fileToRetry \<Rightarrow> call_uploadFile fileToRetry a s)"

section \<open>The component as a transition system\<close>

text \<open>
  What the user and the network can do to the component. The card of a record always has a
  remove button; it has a retry button only under \<open>fileInfo.status === "error"\<close>, so a
  click on retry is possible for the ids in \<open>retry_buttons\<close> and for no other. The file
  picker and the drop zone call \<open>validateAndAddFiles\<close> only with a non-empty selection.
  \<open>Resume k\<close> lets the \<open>k\<close>-th suspended call of \<open>uploadFile\<close> perform its next effect (a
  promise settles, or axios reports progress); the calls interleave in any order.
\<close>

definition retry_buttons :: "FileInfo list \<Rightarrow> string list" where
  "retry_buttons fs = map id_f (filter (\<lambda>fileInfo. status fileInfo = Error) fs)"

datatype event =
    SelectFiles "File list" "string \<Rightarrow> attempt"
  | ClickRemove string
  | ClickRetry string attempt
  | Resume nat

definition resume :: "nat \<Rightarrow> app \<Rightarrow> app" where
  "resume k s =
     (let others = take k (inflight s) @ drop (Suc k) (inflight s) in
      case inflight s ! k of
        (i, []) \<Rightarrow> s\<lparr>inflight := others\<rparr>
      | (i, e # es) \<Rightarrow>
          perform e (s\<lparr>inflight := (if es = [] then others else (inflight s)[k := (i, es)])\<rparr>))"

fun step :: "browser \<Rightarrow> event \<Rightarrow> app \<Rightarrow> app" where
  "step env (SelectFiles selectedFiles attempts) s =
     (if selectedFiles \<noteq> [] then validateAndAddFiles env attempts selectedFiles s else s)"
| "step env (ClickRemove i) s = s\<lparr>files := removeFile i (files s)\<rparr>"
| "step env (ClickRetry i a) s =
     (if i \<in> set (retry_buttons (files s)) then retryUpload i a s else s)"
| "step env (Resume k) s = (if k < length (inflight s) then resume k s else s)"

definition init :: app where
  "init = \<lparr>files = [], fileError = [], created = 0, requests = [], inflight = []\<rparr>"

definition run :: "browser \<Rightarrow> event list \<Rightarrow> app \<Rightarrow> app" where
  "run env evs s = fold (step env) evs s"

text \<open>
  What a suspended call of \<open>uploadFile\<close> for the id \<open>i\<close> has still to do: requests and
  progress updates for \<open>i\<close>, and last one update of \<open>i\<close> to \<open>success\<close> or to \<open>error\<close>.
\<close>

fun closing :: "string \<Rightarrow> effect \<Rightarrow> bool" where
  "closing i (SetFiles j (ToSuccess presignedUrl)) = (j = i)"
| "closing i (SetFiles j (ToError message)) = (j = i)"
| "closing i e = False"

fun passing :: "string \<Rightarrow> effect \<Rightarrow> bool" where
  "passing i (SetFiles j (ToProgress p)) = (j = i)"
| "passing i (SetFiles j u) = False"
| "passing i e = True"

fun rest_ok :: "string \<Rightarrow> effect list \<Rightarrow> bool" where
  "rest_ok i [] = False"
| "rest_ok i [e] = closing i e"
| "rest_ok i (e # es) = (passing i e \<and> rest_ok i es)"

text \<open>The properties that hold of every state the component reaches.\<close>

definition ids_ok :: "browser \<Rightarrow> app \<Rightarrow> bool" where
  "ids_ok env s \<longleftrightarrow>
     distinct (map id_f (files s)) \<and> distinct (map fst (inflight s))
     \<and> (\<forall>f \<in> set (files s). \<exists>k < created s. id_f f = randomUUID env k)
     \<and> (\<forall>t \<in> set (inflight s). \<exists>k < created s. fst t = randomUUID env k)"

definition tasks_ok :: "app \<Rightarrow> bool" where
  "tasks_ok s \<longleftrightarrow>
     (\<forall>t \<in> set (inflight s). rest_ok (fst t) (snd t))
     \<and> (\<forall>f \<in> set (files s). id_f f \<in> fst ` set (inflight s) \<longrightarrow> status f = Uploading)"

definition fields_ok :: "app \<Rightarrow> bool" where
  "fields_ok s \<longleftrightarrow>
     (\<forall>f \<in> set (files s).
        (url f \<noteq> None \<longleftrightarrow> status f = Success)
        \<and> (status f = Error \<longrightarrow> errorMessage f \<noteq> None))"

definition invariant :: "browser \<Rightarrow> app \<Rightarrow> bool" where
  "invariant env s \<longleftrightarrow> ids_ok env s \<and> tasks_ok s \<and> fields_ok s"

text \<open>
  The two tests of the loop body as one predicate, and the entry pushed to
  \<open>invalidFiles\<close> for a file that fails one of them (the type is tested first).
\<close>

definition passes :: "File \<Rightarrow> bool" where
  "passes c \<longleftrightarrow> type c \<in> set ALLOWED_TYPES \<and> \<not> size_f c > MAX_FILE_SIZE"

definition rejection :: "File \<Rightarrow> string" where
  "rejection c = (if type c \<notin> set ALLOWED_TYPES then name c @ '' (unsupported type)''
                  else name c @ '' (exceeds 15MB limit)'')"

section \<open>What a record goes through during one attempt\<close>

text \<open>
  The successive values of one record under the state updates of an effect list (those
  addressed to the record's id), in the order React applies them.
\<close>

fun run_updates :: "FileInfo \<Rightarrow> effect list \<Rightarrow> FileInfo list" where
  "run_updates f [] = []"
| "run_updates f (SetFiles i u # es) =
     (if i = id_f f then apply_update u f # run_updates (apply_update u f) es
      else run_updates f es)"
| "run_updates f (Fetch filename filetype # es) = run_updates f es"
| "run_updates f (AxiosPut target contentType # es) = run_updates f es"

text \<open>The record after all the updates of an effect list.\<close>

fun final_record :: "FileInfo \<Rightarrow> effect list \<Rightarrow> FileInfo" where
  "final_record f [] = f"
| "final_record f (SetFiles i u # es) =
     (if i = id_f f then final_record (apply_update u f) es else final_record f es)"
| "final_record f (Fetch filename filetype # es) = final_record f es"
| "final_record f (AxiosPut target contentType # es) = final_record f es"

section \<open>The backend: \<open>POST /get-upload-url\<close> and \<open>POST /confirm-upload\<close>\<close>

text \<open>
  A JSON body is a list of properties; the values that occur are strings and booleans.
  A reply is the status code with the body.
\<close>

datatype jvalue = JString string | JBool bool

type_synonym reply = "nat \<times> (string \<times> jvalue) list"

text \<open>\<open>Date.now()\<close> inside a template literal: the decimal digits of the number.\<close>

definition digit :: "nat \<Rightarrow> char" where
  "digit n = ''0123456789'' ! n"

function show_nat :: "nat \<Rightarrow> string" where
  "show_nat n = (if n < 10 then [digit n] else show_nat (n div 10) @ [digit (n mod 10)])"
  by pat_completeness auto
termination
  by (relation "measure id") auto

declare show_nat.simps [simp del]

text \<open>
  The handler of \<open>/get-upload-url\<close>. \<open>getSignedUrl\<close> is the AWS presigner, called with the
  bucket, the key and the content type; the \<open>catch\<close> answers \<open>500\<close>.
\<close>

definition get_upload_url ::
  "(string \<Rightarrow> string \<Rightarrow> string \<Rightarrow> string settled) \<Rightarrow> string \<Rightarrow> nat \<Rightarrow> string \<Rightarrow> string \<Rightarrow> reply" where
  "get_upload_url getSignedUrl AWS_S3_BUCKET now filename filetype =
     (let key = ''uploads/'' @ show_nat now @ ''-'' @ filename in
      case getSignedUrl AWS_S3_BUCKET key filetype of
        Fulfilled presignedurl \<Rightarrow> (200, [(''url'', JString presignedurl), (''key'', JString key)])
      | Rejected err \<Rightarrow> (500, [(''error'', JString ''Failed to generate upload URL'')]))"

definition confirm_upload :: "string \<Rightarrow> string \<Rightarrow> reply" where
  "confirm_upload AWS_S3_BUCKET key =
     (200, [(''success'', JBool True), (''message'', JString ''Upload confirmed!''),
            (''imageUrl'', JString (''https://'' @ AWS_S3_BUCKET @ ''.s3.amazonaws.com/'' @ key))])"

text \<open>
  What \<open>fetch\<close> hands to the client for a reply: \<open>ok\<close> is a status in \<open>200..299\<close>,
  \<open>statusText\<close> the reason phrase of the status, and \<open>response.json()\<close> the body, of which
  the client reads the properties \<open>url\<close>, \<open>key\<close> and \<open>bucket\<close>.
\<close>

definition reason_phrase :: "nat \<Rightarrow> string" where
  "reason_phrase code =
     (if code = 200 then ''OK'' else if code = 500 then ''Internal Server Error'' else [])"

definition property :: "(string \<times> jvalue) list \<Rightarrow> string \<Rightarrow> string option" where
  "property body p =
     (case map_of body p of
        None \<Rightarrow> None
      | Some (JString v) \<Rightarrow> Some v
      | Some (JBool b) \<Rightarrow> Some (if b then ''true'' else ''false''))"

definition fetch_response :: "reply \<Rightarrow> response" where
  "fetch_response r =
     \<lparr>ok = (200 \<le> fst r \<and> fst r \<le> 299), statusText = reason_phrase (fst r),
      json = Fulfilled \<lparr>url_p = property (snd r) ''url'', key_p = property (snd r) ''key'',
                        bucket_p = property (snd r) ''bucket''\<rparr>\<rparr>"

section \<open>Example values\<close>

definition rec_a :: FileInfo where
  "rec_a = \<lparr>name = ''a.png'', size_f = 1000, type = ''image/png'',
            file_f = \<lparr>name = ''a.png'', size_f = 1000, type = ''image/png''\<rparr>,
            previewUrl = ''blob:a'', id_f = ''id-a'', status = Uploading, progress = Num 40,
            url = None, errorMessage = None\<rparr>"

definition rec_b :: FileInfo where
  "rec_b = \<lparr>name = ''b.gif'', size_f = 2000, type = ''image/gif'',
            file_f = \<lparr>name = ''b.gif'', size_f = 2000, type = ''image/gif''\<rparr>,
            previewUrl = ''blob:b'', id_f = ''id-b'', status = Uploading, progress = Num 10,
            url = None, errorMessage = None\<rparr>"

text \<open>An attempt whose authorization succeeds and whose transfer fails after 40 percent.\<close>

definition attempt_fails_at_40 :: attempt where
  "attempt_fails_at_40 =
     \<lparr>fetch_result = Fulfilled \<lparr>ok = True, statusText = ''OK'',
          json = Fulfilled \<lparr>url_p = Some ''https://u'', key_p = Some ''uploads/123-a.png'',
                            bucket_p = None\<rparr>\<rparr>,
      progressEvents = [\<lparr>loaded = 400, total = Some 1000\<rparr>],
      put_result = Rejected (ErrorInstance ''Network Error'')\<rparr>"

definition file_a :: File where
  "file_a = \<lparr>name = ''a.png'', size_f = 1000, type = ''image/png''\<rparr>"

definition file_b :: File where
  "file_b = \<lparr>name = ''b.txt'', size_f = 500, type = ''text/plain''\<rparr>"

definition file_c :: File where
  "file_c = \<lparr>name = ''c.mp4'', size_f = 20 * 1024 * 1024, type = ''video/mp4''\<rparr>"

text \<open>A browser whose \<open>n\<close>-th id is \<open>n + 1\<close> letters long, so no id is drawn twice.\<close>

definition env0 :: browser where
  "env0 = \<lparr>randomUUID = (\<lambda>n. replicate (Suc n) CHR ''u''),
            createObjectURL = (\<lambda>n. ''blob:'' @ replicate (Suc n) CHR ''p'')\<rparr>"

text \<open>A state that still shows the advisory of an earlier batch.\<close>

definition app0 :: app where
  "app0 = \<lparr>files = [], fileError = ''Some files were not added: b.txt (unsupported type)'',
            created = 0, requests = [], inflight = []\<rparr>"

text \<open>A record that finished uploading, and a state that holds it.\<close>

definition rec_u :: FileInfo where
  "rec_u = \<lparr>name = ''u.png'', size_f = 10, type = ''image/png'',
            file_f = \<lparr>name = ''u.png'', size_f = 10, type = ''image/png''\<rparr>,
            previewUrl = ''blob:p'', id_f = ''u'', status = Success, progress = Num 100,
            url = Some ''https://undefined.s3.amazonaws.com/uploads/1-u.png'',
            errorMessage = None\<rparr>"

definition app1 :: app where
  "app1 = \<lparr>files = [rec_u], fileError = [], created = 1, requests = [], inflight = []\<rparr>"

text \<open>
  Scenario A: the backend answers the request for \<open>a.png\<close> at time \<open>123\<close>, in a deployment
  whose bucket is \<open>my-bucket\<close>, and the transfer succeeds.
\<close>

definition reply_a :: reply where
  "reply_a = get_upload_url (\<lambda>b k t. Fulfilled ''https://u'') ''my-bucket'' 123 ''a.png''
               ''image/png''"

definition attempt_a :: attempt where
  "attempt_a = \<lparr>fetch_result = Fulfilled (fetch_response reply_a), progressEvents = [],
                 put_result = Fulfilled ()\<rparr>"



text \<open>A record whose upload failed, and a state that holds it.\<close>

definition rec_e :: FileInfo where
  "rec_e = \<lparr>name = ''a.png'', size_f = 1000, type = ''image/png'',
            file_f = \<lparr>name = ''a.png'', size_f = 1000, type = ''image/png''\<rparr>,
            previewUrl = ''blob:p'', id_f = ''u'', status = Error, progress = Num 0,
            url = None, errorMessage = Some ''Network Error''\<rparr>"

definition app_e :: app where
  "app_e = \<lparr>files = [rec_e], fileError = [], created = 1, requests = [], inflight = []\<rparr>"

text \<open>
  A session: the user selects \<open>b.txt\<close> and \<open>a.png\<close>; the upload of \<open>a.png\<close> fails after 40
  percent; the user clicks retry; the second attempt succeeds.
\<close>

definition always_fails :: "string \<Rightarrow> attempt" where
  "always_fails i = attempt_fails_at_40"

definition evs_failed :: "event list" where
  "evs_failed = [SelectFiles [file_b, file_a] always_fails, Resume 0, Resume 0, Resume 0]"

definition evs_retried :: "event list" where
  "evs_retried = evs_failed @ [ClickRetry ''u'' attempt_a]"

definition evs_done :: "event list" where
  "evs_done = evs_retried @ [Resume 0, Resume 0]"

definition rec_retried :: FileInfo where
  "rec_retried = \<lparr>name = ''a.png'', size_f = 1000, type = ''image/png'',
                  file_f = \<lparr>name = ''a.png'', size_f = 1000, type = ''image/png''\<rparr>,
                  previewUrl = ''blob:p'', id_f = ''u'', status = Uploading, progress = Num 0,
                  url = None, errorMessage = Some ''Network Error''\<rparr>"

definition rec_done :: FileInfo where
  "rec_done = \<lparr>name = ''a.png'', size_f = 1000, type = ''image/png'',
               file_f = \<lparr>name = ''a.png'', size_f = 1000, type = ''image/png''\<rparr>,
               previewUrl = ''blob:p'', id_f = ''u'', status = Success, progress = Num 100,
               url = Some ''https://undefined.s3.amazonaws.com/uploads/123-a.png'',
               errorMessage = Some ''Network Error''\<rparr>"





text \<open>The record of \<open>a.png\<close> when it is the second one created and its upload has started.\<close>

definition rec_started :: FileInfo where
  "rec_started = \<lparr>name = ''a.png'', size_f = 1000, type = ''image/png'',
                  file_f = \<lparr>name = ''a.png'', size_f = 1000, type = ''image/png''\<rparr>,
                  previewUrl = ''blob:pp'', id_f = ''uu'', status = Uploading, progress = Num 0,
                  url = None, errorMessage = None\<rparr>"

section \<open>Evaluating the arithmetic\<close>

lemmas double_arith =
  percent_of_def double_of_nat_def double_quotient_def floor_log2_def round_half_even_def
  math_round_def Let_def bit_length.simps

lemma percent_of_400_1000: "percent_of 400 1000 = 40"
  by (simp add: double_arith)

section \<open>Frame of the state updates\<close>

lemma SetFiles_in_catch_block:
  "SetFiles j u \<in> set (catch_block fileInfo err) \<Longrightarrow> j = id_f fileInfo"
  by (simp add: catch_block_def)

lemma SetFiles_in_uploadFile:
  "SetFiles j u \<in> set (uploadFile fileInfo a) \<Longrightarrow> j = id_f fileInfo"
  by (auto simp: uploadFile_def uploadFile_sync_def uploadFile_async_def
      dest: SetFiles_in_catch_block split: settled.splits if_splits)

lemma setFiles_other: "id_f f \<noteq> i \<Longrightarrow> f \<in> set prev \<Longrightarrow> f \<in> set (setFiles i u prev)"
  by (force simp: setFiles_def)

lemma setFiles_nth:
  "k < length prev \<Longrightarrow> id_f (prev ! k) \<noteq> i \<Longrightarrow> setFiles i u prev ! k = prev ! k"
  by (simp add: setFiles_def)

lemma setFiles_absent: "i \<notin> id_f ` set prev \<Longrightarrow> setFiles i u prev = prev"
  by (induction prev) (auto simp: setFiles_def)

lemma removeFile_absent: "i \<notin> id_f ` set (removeFile i prev)"
  by (auto simp: removeFile_def)

text \<open>
  C9. Every state update that an upload attempt for \<open>fileInfo\<close> queues is addressed to
  \<open>fileInfo.id\<close>; applied to any record list it keeps the length and the position of every
  record and leaves each record with another id as it was; when no record has the id (for
  instance after \<open>removeFile\<close>), the update returns the list unchanged.
\<close>

theorem uploadFile_updates_frame:
  assumes "SetFiles j u \<in> set (uploadFile fileInfo a)"
  shows "j = id_f fileInfo
       \<and> length (setFiles j u prev) = length prev
       \<and> (\<forall>k < length prev. id_f (prev ! k) \<noteq> j \<longrightarrow> setFiles j u prev ! k = prev ! k)
       \<and> (j \<notin> id_f ` set prev \<longrightarrow> setFiles j u prev = prev)
       \<and> setFiles j u (removeFile j prev) = removeFile j prev"
proof -
  have "j = id_f fileInfo"
    using assms by (rule SetFiles_in_uploadFile)
  moreover have "length (setFiles j u prev) = length prev"
    by (simp add: setFiles_def)
  moreover have "\<forall>k < length prev. id_f (prev ! k) \<noteq> j \<longrightarrow> setFiles j u prev ! k = prev ! k"
    by (simp add: setFiles_nth)
  moreover have "j \<notin> id_f ` set prev \<longrightarrow> setFiles j u prev = prev"
    by (simp add: setFiles_absent)
  moreover have "setFiles j u (removeFile j prev) = removeFile j prev"
    by (rule setFiles_absent) (rule removeFile_absent)
  ultimately show ?thesis by blast
qed

theorem uploadFile_updates_frame_witness:
  "SetFiles ''id-a'' (ToError ''Network Error'') \<in> set (uploadFile rec_a attempt_fails_at_40)
   \<and> setFiles ''id-a'' (ToError ''Network Error'') [rec_a, rec_b] ! 1 = rec_b
   \<and> status (setFiles ''id-a'' (ToError ''Network Error'') [rec_a, rec_b] ! 0) = Error
   \<and> setFiles ''id-a'' (ToError ''Network Error'') (removeFile ''id-a'' [rec_a, rec_b]) = [rec_b]"
proof -
  have m: "SetFiles ''id-a'' (ToError ''Network Error'') \<in> set (uploadFile rec_a attempt_fails_at_40)"
    by (simp add: uploadFile_def uploadFile_sync_def uploadFile_async_def catch_block_def
        attempt_fails_at_40_def rec_a_def)
  have r: "removeFile ''id-a'' [rec_a, rec_b] = [rec_b]"
    by (simp add: removeFile_def rec_a_def rec_b_def)
  have s: "status (setFiles ''id-a'' (ToError ''Network Error'') [rec_a, rec_b] ! 0) = Error"
    by (simp add: setFiles_def rec_a_def)
  from uploadFile_updates_frame [OF m, of "[rec_a, rec_b]"] m r s show ?thesis
    by (simp add: rec_a_def rec_b_def)
qed

section \<open>Intake partitions the batch\<close>

lemma fold_validateOne:
  "fold (validateOne env n0 ) cs (nf, bad) =
     (nf @ map (\<lambda>(k, c). newFileInfo env k c) (enumerate (n0 + length nf) (filter passes cs)),
      bad @ map rejection (filter (\<lambda>c. \<not> passes c) cs))"
proof (induction cs arbitrary: nf bad)
  case Nil
  then show ?case by simp
next
  case (Cons c cs)
  show ?case
  proof (cases "passes c")
    case True
    then have "validateOne env n0 c (nf, bad) = (nf @ [newFileInfo env (n0 + length nf) c], bad)"
      by (simp add: validateOne_def passes_def)
    with True Cons.IH [of "nf @ [newFileInfo env (n0 + length nf) c]" bad] show ?thesis
      by simp
  next
    case False
    then have "validateOne env n0 c (nf, bad) = (nf, bad @ [rejection c])"
      by (auto simp: validateOne_def passes_def rejection_def)
    with False Cons.IH [of nf "bad @ [rejection c]"] show ?thesis
      by simp
  qed
qed

lemma validateAll_eq:
  "validateAll env n0 cs =
     (map (\<lambda>(k, c). newFileInfo env k c) (enumerate n0 (filter passes cs)),
      map rejection (filter (\<lambda>c. \<not> passes c) cs))"
  using fold_validateOne [of env n0 cs "[]" "[]"] by (simp add: validateAll_def)

lemma map_file_f_enumerate:
  "map file_f (map (\<lambda>(k, c). newFileInfo env k c) (enumerate n cs)) = cs"
  by (induction cs arbitrary: n) (simp_all add: newFileInfo_def)

lemma map_id_f_enumerate:
  "map id_f (map (\<lambda>(k, c). newFileInfo env k c) (enumerate n cs))
     = map (randomUUID env) [n ..< n + length cs]"
  by (induction cs arbitrary: n) (simp_all add: newFileInfo_def upt_rec)

lemma sublist_join: "x \<in> set xs \<Longrightarrow> sublist x (join xs)"
proof (induction xs rule: join.induct)
  case 1
  then show ?case by simp
next
  case (2 y)
  then show ?case by simp
next
  case (3 y z zs)
  show ?case
  proof (cases "x = y")
    case True
    then show ?thesis by simp
  next
    case False
    with 3 have "sublist x (join (z # zs))" by simp
    then obtain ps ss where "join (z # zs) = ps @ x @ ss"
      by (auto simp: sublist_def)
    then have "join (y # z # zs) = (y @ '', '' @ ps) @ x @ ss" by simp
    then show ?thesis unfolding sublist_def by blast
  qed
qed

lemma passes_iff:
  "passes c \<longleftrightarrow>
     type c \<in> {''image/jpeg'', ''image/png'', ''image/gif'', ''video/mp4'', ''video/quicktime''}
     \<and> size_f c \<le> 15 * 1024 * 1024"
  by (auto simp: passes_def ALLOWED_TYPES_def MAX_FILE_SIZE_def)

lemma rejection_cases:
  "type c \<notin> {''image/jpeg'', ''image/png'', ''image/gif'', ''video/mp4'', ''video/quicktime''}
     \<Longrightarrow> rejection c = name c @ '' (unsupported type)''"
  "type c \<in> {''image/jpeg'', ''image/png'', ''image/gif'', ''video/mp4'', ''video/quicktime''}
     \<Longrightarrow> rejection c = name c @ '' (exceeds 15MB limit)''"
  by (auto simp: rejection_def ALLOWED_TYPES_def)

section \<open>What a handler's call of \<open>uploadFile\<close> does to the state\<close>

lemma apply_update_id [simp]: "id_f (apply_update u f) = id_f f"
  by (cases u) simp_all

lemma apply_update_file [simp]: "file_f (apply_update u f) = file_f f"
  by (cases u) simp_all

lemma map_id_setFiles [simp]: "map id_f (setFiles i u prev) = map id_f prev"
  by (simp add: setFiles_def)

lemma map_file_setFiles [simp]: "map file_f (setFiles i u prev) = map file_f prev"
  by (simp add: setFiles_def)

lemma call_uploadFile_simps [simp]:
  "files (call_uploadFile f a s) = setFiles (id_f f) ToUploading (files s)"
  "fileError (call_uploadFile f a s) = fileError s"
  "created (call_uploadFile f a s) = created s"
  "requests (call_uploadFile f a s) = requests s @ [Fetch (name f) (type f)]"
  "inflight (call_uploadFile f a s) = inflight s @ [(id_f f, uploadFile_async f a)]"
  by (simp_all add: call_uploadFile_def uploadFile_sync_def)

lemma fold_call_uploadFile:
  "files (fold (\<lambda>f. call_uploadFile f (att (id_f f))) fs s)
     = fold (\<lambda>f. setFiles (id_f f) ToUploading) fs (files s)"
  "fileError (fold (\<lambda>f. call_uploadFile f (att (id_f f))) fs s) = fileError s"
  "created (fold (\<lambda>f. call_uploadFile f (att (id_f f))) fs s) = created s"
  "requests (fold (\<lambda>f. call_uploadFile f (att (id_f f))) fs s)
     = requests s @ map (\<lambda>f. Fetch (name f) (type f)) fs"
  "inflight (fold (\<lambda>f. call_uploadFile f (att (id_f f))) fs s)
     = inflight s @ map (\<lambda>f. (id_f f, uploadFile_async f (att (id_f f)))) fs"
  by (induction fs arbitrary: s) simp_all

lemma fold_setFiles_ToUploading:
  "fold (\<lambda>f. setFiles (id_f f) ToUploading) fs prev
     = map (\<lambda>x. if id_f x \<in> id_f ` set fs then apply_update ToUploading x else x) prev"
proof (induction fs arbitrary: prev)
  case Nil
  then show ?case by simp
next
  case (Cons g gs)
  have "fold (\<lambda>f. setFiles (id_f f) ToUploading) (g # gs) prev
      = map (\<lambda>x. if id_f x \<in> id_f ` set gs then apply_update ToUploading x else x)
          (setFiles (id_f g) ToUploading prev)"
    using Cons.IH by simp
  also have "\<dots> = map (\<lambda>x. if id_f x \<in> id_f ` set (g # gs)
                             then apply_update ToUploading x else x) prev"
    by (auto simp: setFiles_def)
  finally show ?case .
qed

lemma validateAndAddFiles_eq:
  assumes "validateAll env (created s) selectedFiles = (newFiles, invalidFiles)"
  shows "validateAndAddFiles env attempts selectedFiles s =
     fold (\<lambda>fileInfo. call_uploadFile fileInfo (attempts (id_f fileInfo))) newFiles
       (s\<lparr>fileError := (if invalidFiles = [] then []
                         else ''Some files were not added: '' @ join invalidFiles),
          files := files s @ newFiles, created := created s + length newFiles\<rparr>)"
proof (cases "selectedFiles = []")
  case True
  with assms have "newFiles = []" "invalidFiles = []"
    by (simp_all add: validateAll_def)
  with True show ?thesis
    by (simp add: validateAndAddFiles_def)
next
  case False
  with assms show ?thesis
    by (simp add: validateAndAddFiles_def Let_def)
qed

lemma fileError_validateAndAddFiles:
  assumes "validateAll env (created s) selectedFiles = (newFiles, invalidFiles)"
  shows "fileError (validateAndAddFiles env attempts selectedFiles s) =
     (if invalidFiles = [] then [] else ''Some files were not added: '' @ join invalidFiles)"
  by (simp add: validateAndAddFiles_eq [OF assms] fold_call_uploadFile)

lemma files_validateAndAddFiles:
  assumes "validateAll env (created s) selectedFiles = (newFiles, invalidFiles)"
  shows "files (validateAndAddFiles env attempts selectedFiles s) =
     map (\<lambda>x. if id_f x \<in> id_f ` set newFiles then apply_update ToUploading x else x)
       (files s @ newFiles)"
  by (simp add: validateAndAddFiles_eq [OF assms] fold_call_uploadFile fold_setFiles_ToUploading)

lemma validateAll_batch0:
  "validateAll env0 0 [file_b, file_a, file_c]
     = ([newFileInfo env0 0 file_a],
        [''b.txt (unsupported type)'', ''c.mp4 (exceeds 15MB limit)''])"
  by (simp add: validateAll_def validateOne_def ALLOWED_TYPES_def MAX_FILE_SIZE_def
      file_a_def file_b_def file_c_def)

text \<open>
  C5. For a batch handled by \<open>validateAndAddFiles\<close>, with \<open>newFiles\<close> and \<open>invalidFiles\<close>
  the two arrays the loop builds: a candidate gets a record exactly when its type is one
  of the five allowed types and its size is at most \<open>15 * 1024 * 1024\<close>; a candidate of
  another type has the entry "name (unsupported type)", a candidate of an allowed type
  that is too large has the entry "name (exceeds 15MB limit)", and the entry is part of
  the message shown (\<open>fileError\<close>); every new record is created \<open>pending\<close> with progress \<open>0\<close>
  and copies name, size and type of its file; the records of the state after the call are
  those of the files held before and of the accepted candidates; every candidate is
  either accepted or rejected.
\<close>

theorem intake_accepts_iff:
  assumes "validateAll env (created s) selectedFiles = (newFiles, invalidFiles)"
  shows "(\<forall>c \<in> set selectedFiles.
            (c \<in> file_f ` set newFiles \<longleftrightarrow>
               type c \<in> {''image/jpeg'', ''image/png'', ''image/gif'', ''video/mp4'',
                          ''video/quicktime''}
               \<and> size_f c \<le> 15 * 1024 * 1024)
          \<and> (type c \<notin> {''image/jpeg'', ''image/png'', ''image/gif'', ''video/mp4'',
                          ''video/quicktime''} \<longrightarrow>
               name c @ '' (unsupported type)'' \<in> set invalidFiles
               \<and> sublist (name c @ '' (unsupported type)'')
                    (fileError (validateAndAddFiles env attempts selectedFiles s)))
          \<and> (type c \<in> {''image/jpeg'', ''image/png'', ''image/gif'', ''video/mp4'',
                          ''video/quicktime''}
               \<and> size_f c > 15 * 1024 * 1024 \<longrightarrow>
               name c @ '' (exceeds 15MB limit)'' \<in> set invalidFiles
               \<and> sublist (name c @ '' (exceeds 15MB limit)'')
                    (fileError (validateAndAddFiles env attempts selectedFiles s))))
       \<and> (\<forall>r \<in> set newFiles.
            status r = Pending \<and> progress r = Num 0 \<and> file_f r \<in> set selectedFiles
            \<and> name r = name (file_f r) \<and> size_f r = size_f (file_f r)
            \<and> type r = type (file_f r))
       \<and> file_f ` set (files (validateAndAddFiles env attempts selectedFiles s))
            = file_f ` set (files s) \<union> file_f ` set newFiles
       \<and> length newFiles + length invalidFiles = length selectedFiles"
proof -
  let ?s' = "validateAndAddFiles env attempts selectedFiles s"
  let ?allowed = "{''image/jpeg'', ''image/png'', ''image/gif'', ''video/mp4'',
                   ''video/quicktime''}"
  from assms have nf: "newFiles = map (\<lambda>(k, c). newFileInfo env k c)
                          (enumerate (created s) (filter passes selectedFiles))"
    and bad: "invalidFiles = map rejection (filter (\<lambda>c. \<not> passes c) selectedFiles)"
    by (simp_all add: validateAll_eq)
  have files_nf: "map file_f newFiles = filter passes selectedFiles"
    unfolding nf by (rule map_file_f_enumerate)
  then have img: "file_f ` set newFiles = {c \<in> set selectedFiles. passes c}"
    by (metis set_filter set_map)
  have err: "sublist x (fileError ?s')" if x: "x \<in> set invalidFiles" for x
  proof -
    from x have "sublist x (join invalidFiles)" by (rule sublist_join)
    then obtain ps ss where "join invalidFiles = ps @ x @ ss"
      by (auto simp: sublist_def)
    then have "''Some files were not added: '' @ join invalidFiles
                 = (''Some files were not added: '' @ ps) @ x @ ss"
      by simp
    then have "sublist x (''Some files were not added: '' @ join invalidFiles)"
      unfolding sublist_def by blast
    with x show ?thesis
      by (auto simp: fileError_validateAndAddFiles [OF assms])
  qed
  have rej: "rejection c \<in> set invalidFiles \<and> sublist (rejection c) (fileError ?s')"
    if "c \<in> set selectedFiles" "\<not> passes c" for c
  proof -
    from that have "rejection c \<in> set invalidFiles" by (simp add: bad)
    with err show ?thesis by blast
  qed
  have A: "\<forall>c \<in> set selectedFiles.
            (c \<in> file_f ` set newFiles \<longleftrightarrow> type c \<in> ?allowed \<and> size_f c \<le> 15 * 1024 * 1024)
          \<and> (type c \<notin> ?allowed \<longrightarrow>
               name c @ '' (unsupported type)'' \<in> set invalidFiles
               \<and> sublist (name c @ '' (unsupported type)'') (fileError ?s'))
          \<and> (type c \<in> ?allowed \<and> size_f c > 15 * 1024 * 1024 \<longrightarrow>
               name c @ '' (exceeds 15MB limit)'' \<in> set invalidFiles
               \<and> sublist (name c @ '' (exceeds 15MB limit)'') (fileError ?s'))"
  proof
    fix c assume c: "c \<in> set selectedFiles"
    have 1: "c \<in> file_f ` set newFiles \<longleftrightarrow> type c \<in> ?allowed \<and> size_f c \<le> 15 * 1024 * 1024"
      using c by (simp only: img passes_iff) blast
    have 2: "name c @ '' (unsupported type)'' \<in> set invalidFiles
               \<and> sublist (name c @ '' (unsupported type)'') (fileError ?s')"
      if t: "type c \<notin> ?allowed"
    proof -
      from t have "\<not> passes c" by (simp only: passes_iff) blast
      from rej [OF c this] rejection_cases(1) [OF t] show ?thesis by simp
    qed
    have 3: "name c @ '' (exceeds 15MB limit)'' \<in> set invalidFiles
               \<and> sublist (name c @ '' (exceeds 15MB limit)'') (fileError ?s')"
      if t: "type c \<in> ?allowed" and z: "size_f c > 15 * 1024 * 1024"
    proof -
      from z have "\<not> passes c" by (simp only: passes_iff) simp
      from rej [OF c this] rejection_cases(2) [OF t] show ?thesis by simp
    qed
    from 1 2 3
    show "(c \<in> file_f ` set newFiles \<longleftrightarrow> type c \<in> ?allowed \<and> size_f c \<le> 15 * 1024 * 1024)
          \<and> (type c \<notin> ?allowed \<longrightarrow>
               name c @ '' (unsupported type)'' \<in> set invalidFiles
               \<and> sublist (name c @ '' (unsupported type)'') (fileError ?s'))
          \<and> (type c \<in> ?allowed \<and> size_f c > 15 * 1024 * 1024 \<longrightarrow>
               name c @ '' (exceeds 15MB limit)'' \<in> set invalidFiles
               \<and> sublist (name c @ '' (exceeds 15MB limit)'') (fileError ?s'))"
      by blast
  qed
  have B: "\<forall>r \<in> set newFiles.
            status r = Pending \<and> progress r = Num 0 \<and> file_f r \<in> set selectedFiles
            \<and> name r = name (file_f r) \<and> size_f r = size_f (file_f r)
            \<and> type r = type (file_f r)"
  proof
    fix r assume r: "r \<in> set newFiles"
    then obtain k c where rc: "r = newFileInfo env k c"
      unfolding nf by auto
    from r have "file_f r \<in> set (map file_f newFiles)" by simp
    then have "file_f r \<in> set selectedFiles"
      unfolding files_nf by simp
    then show "status r = Pending \<and> progress r = Num 0 \<and> file_f r \<in> set selectedFiles
            \<and> name r = name (file_f r) \<and> size_f r = size_f (file_f r)
            \<and> type r = type (file_f r)"
      by (simp add: rc newFileInfo_def)
  qed
  have "map file_f (files ?s') = map file_f (files s @ newFiles)"
    unfolding files_validateAndAddFiles [OF assms] by (simp add: comp_def)
  then have "set (map file_f (files ?s')) = set (map file_f (files s @ newFiles))"
    by simp
  then have C: "file_f ` set (files ?s') = file_f ` set (files s) \<union> file_f ` set newFiles"
    by (simp add: image_Un)
  have "length newFiles + length invalidFiles
          = length (filter passes selectedFiles)
            + length (filter (\<lambda>c. \<not> passes c) selectedFiles)"
    by (simp add: nf bad)
  then have D: "length newFiles + length invalidFiles = length selectedFiles"
    by (simp add: sum_length_filter_compl)
  from A B C D show ?thesis by blast
qed

theorem intake_accepts_iff_witness:
  "validateAll env0 (created app0) [file_b, file_a, file_c]
     = ([newFileInfo env0 0 file_a],
        [''b.txt (unsupported type)'', ''c.mp4 (exceeds 15MB limit)''])
   \<and> file_b \<notin> file_f ` set [newFileInfo env0 0 file_a]
   \<and> sublist ''b.txt (unsupported type)''
        (fileError (validateAndAddFiles env0 always_fails [file_b, file_a, file_c] app0))
   \<and> sublist ''c.mp4 (exceeds 15MB limit)''
        (fileError (validateAndAddFiles env0 always_fails [file_b, file_a, file_c] app0))"
proof -
  let ?allowed = "{''image/jpeg'', ''image/png'', ''image/gif'', ''video/mp4'',
                   ''video/quicktime''}"
  let ?s' = "validateAndAddFiles env0 always_fails [file_b, file_a, file_c] app0"
  have v: "validateAll env0 (created app0) [file_b, file_a, file_c]
     = ([newFileInfo env0 0 file_a],
        [''b.txt (unsupported type)'', ''c.mp4 (exceeds 15MB limit)''])"
    using validateAll_batch0 by (simp add: app0_def)
  have tb: "type file_b \<notin> ?allowed"
    by (simp add: file_b_def)
  have tc: "type file_c \<in> ?allowed \<and> size_f file_c > 15 * 1024 * 1024"
    by (simp add: file_c_def)
  have nb: "name file_b @ '' (unsupported type)'' = ''b.txt (unsupported type)''"
    by (simp add: file_b_def)
  have nc: "name file_c @ '' (exceeds 15MB limit)'' = ''c.mp4 (exceeds 15MB limit)''"
    by (simp add: file_c_def)
  note T = intake_accepts_iff [OF v, of always_fails]
  have b: "file_b \<in> set [file_b, file_a, file_c]" and c: "file_c \<in> set [file_b, file_a, file_c]"
    by simp_all
  from T b tb have 1: "file_b \<notin> file_f ` set [newFileInfo env0 0 file_a]"
    by blast
  from T b tb have "sublist (name file_b @ '' (unsupported type)'') (fileError ?s')"
    by blast
  then have 2: "sublist ''b.txt (unsupported type)'' (fileError ?s')"
    by (simp only: nb)
  from T c tc have "sublist (name file_c @ '' (exceeds 15MB limit)'') (fileError ?s')"
    by blast
  then have 3: "sublist ''c.mp4 (exceeds 15MB limit)'' (fileError ?s')"
    by (simp only: nc)
  from v 1 2 3 show ?thesis by blast
qed

section \<open>Intake appends and starts the uploads\<close>

lemma new_ids:
  assumes "validateAll env n0 selectedFiles = (newFiles, invalidFiles)"
  shows "id_f ` set newFiles \<subseteq> randomUUID env ` {n0 ..}"
proof -
  from assms have nf: "newFiles = map (\<lambda>(k, c). newFileInfo env k c)
                          (enumerate n0 (filter passes selectedFiles))"
    by (simp add: validateAll_eq)
  have "map id_f newFiles
      = map (randomUUID env) [n0 ..< n0 + length (filter passes selectedFiles)]"
    unfolding nf by (rule map_id_f_enumerate)
  then have "set (map id_f newFiles)
      = set (map (randomUUID env) [n0 ..< n0 + length (filter passes selectedFiles)])"
    by (rule arg_cong)
  then have "id_f ` set newFiles
      = randomUUID env ` {n0 ..< n0 + length (filter passes selectedFiles)}"
    by (simp only: set_map set_upt)
  also have "\<dots> \<subseteq> randomUUID env ` {n0 ..}"
    by (rule image_mono) auto
  finally show ?thesis .
qed

text \<open>
  C8. When no record held before the call carries an id that \<open>randomUUID\<close> returns from now
  on, \<open>validateAndAddFiles\<close> leaves the records held before as they are and in place, and
  puts the new records behind them; the new records are those of exactly the candidates
  that pass both tests, in the order of the batch, whatever else the batch contains; and
  for each new record, created \<open>pending\<close>, \<open>uploadFile\<close> has been called: in the state
  after the call the record is \<open>uploading\<close> with progress \<open>0\<close>, its authorization request
  has been issued and the rest of the upload is in flight.
\<close>

theorem intake_appends_and_starts:
  assumes "validateAll env (created s) selectedFiles = (newFiles, invalidFiles)"
    and "\<forall>f \<in> set (files s). \<forall>k \<ge> created s. id_f f \<noteq> randomUUID env k"
  shows "files (validateAndAddFiles env attempts selectedFiles s)
           = files s @ map (\<lambda>f. f\<lparr>status := Uploading, progress := Num 0\<rparr>) newFiles
       \<and> (\<forall>f \<in> set newFiles. status f = Pending \<and> progress f = Num 0)
       \<and> map status (files (validateAndAddFiles env attempts selectedFiles s))
           = map status (files s) @ replicate (length newFiles) Uploading
       \<and> map file_f newFiles
           = filter (\<lambda>c. type c \<in> set ALLOWED_TYPES \<and> size_f c \<le> MAX_FILE_SIZE) selectedFiles
       \<and> requests (validateAndAddFiles env attempts selectedFiles s)
           = requests s @ map (\<lambda>f. Fetch (name f) (type f)) newFiles
       \<and> inflight (validateAndAddFiles env attempts selectedFiles s)
           = inflight s @ map (\<lambda>f. (id_f f, uploadFile_async f (attempts (id_f f)))) newFiles"
proof -
  let ?s' = "validateAndAddFiles env attempts selectedFiles s"
  let ?up = "\<lambda>x. if id_f x \<in> id_f ` set newFiles then apply_update ToUploading x else x"
  from assms(1) have nf: "newFiles = map (\<lambda>(k, c). newFileInfo env k c)
                          (enumerate (created s) (filter passes selectedFiles))"
    by (simp add: validateAll_eq)
  have old: "\<forall>f \<in> set (files s). id_f f \<notin> id_f ` set newFiles"
  proof
    fix f assume f: "f \<in> set (files s)"
    show "id_f f \<notin> id_f ` set newFiles"
    proof
      assume "id_f f \<in> id_f ` set newFiles"
      with new_ids [OF assms(1)] have "id_f f \<in> randomUUID env ` {created s ..}"
        by (rule subsetD)
      then obtain k where "k \<ge> created s" "id_f f = randomUUID env k"
        by auto
      with assms(2) f show False by blast
    qed
  qed
  then have "map ?up (files s) = files s"
    by (simp add: map_idI)
  moreover have "map ?up newFiles
                   = map (\<lambda>f. f\<lparr>status := Uploading, progress := Num 0\<rparr>) newFiles"
    by simp
  ultimately have 1: "files ?s'
      = files s @ map (\<lambda>f. f\<lparr>status := Uploading, progress := Num 0\<rparr>) newFiles"
    by (simp add: files_validateAndAddFiles [OF assms(1)])
  have 5: "\<forall>f \<in> set newFiles. status f = Pending \<and> progress f = Num 0"
  proof
    fix f assume "f \<in> set newFiles"
    then obtain k c where "f = newFileInfo env k c"
      unfolding nf by auto
    then show "status f = Pending \<and> progress f = Num 0"
      by (simp add: newFileInfo_def)
  qed
  have 6: "map status (files ?s') = map status (files s) @ replicate (length newFiles) Uploading"
    unfolding 1 by (simp add: comp_def map_replicate_const)
  have "map file_f newFiles = filter passes selectedFiles"
    unfolding nf by (rule map_file_f_enumerate)
  moreover have "passes = (\<lambda>c. type c \<in> set ALLOWED_TYPES \<and> size_f c \<le> MAX_FILE_SIZE)"
    by (auto simp: passes_def fun_eq_iff)
  ultimately have 2: "map file_f newFiles
      = filter (\<lambda>c. type c \<in> set ALLOWED_TYPES \<and> size_f c \<le> MAX_FILE_SIZE) selectedFiles"
    by simp
  have 3: "requests ?s' = requests s @ map (\<lambda>f. Fetch (name f) (type f)) newFiles"
    by (simp add: validateAndAddFiles_eq [OF assms(1)] fold_call_uploadFile)
  have 4: "inflight ?s'
      = inflight s @ map (\<lambda>f. (id_f f, uploadFile_async f (attempts (id_f f)))) newFiles"
    by (simp add: validateAndAddFiles_eq [OF assms(1)] fold_call_uploadFile)
  from 1 2 3 4 5 6 show ?thesis by blast
qed

text \<open>The batch of the scenarios B, A and C when one id has been drawn before.\<close>

lemma validateAll_batch1:
  "validateAll env0 1 [file_b, file_a, file_c]
     = ([newFileInfo env0 1 file_a],
        [''b.txt (unsupported type)'', ''c.mp4 (exceeds 15MB limit)''])"
  by (simp add: validateAll_def validateOne_def ALLOWED_TYPES_def MAX_FILE_SIZE_def
      file_a_def file_b_def file_c_def)

theorem intake_appends_and_starts_witness:
  "validateAll env0 (created app1) [file_b, file_a, file_c]
     = ([newFileInfo env0 1 file_a],
        [''b.txt (unsupported type)'', ''c.mp4 (exceeds 15MB limit)''])
   \<and> files app1 = [rec_u]
   \<and> files (validateAndAddFiles env0 always_fails [file_b, file_a, file_c] app1)
       = [rec_u, rec_started]
   \<and> status (newFileInfo env0 1 file_a) = Pending
   \<and> status rec_started = Uploading \<and> progress rec_started = Num 0
   \<and> map status (files (validateAndAddFiles env0 always_fails [file_b, file_a, file_c] app1))
       = [Success, Uploading]
   \<and> requests (validateAndAddFiles env0 always_fails [file_b, file_a, file_c] app1)
       = [Fetch ''a.png'' ''image/png'']
   \<and> inflight (validateAndAddFiles env0 always_fails [file_b, file_a, file_c] app1)
       = [(''uu'', [AxiosPut (Some ''https://u'') ''image/png'',
                    SetFiles ''uu'' (ToProgress (Num 40)),
                    SetFiles ''uu'' (ToError ''Network Error'')])]"
proof -
  let ?s' = "validateAndAddFiles env0 always_fails [file_b, file_a, file_c] app1"
  have v: "validateAll env0 (created app1) [file_b, file_a, file_c]
     = ([newFileInfo env0 1 file_a],
        [''b.txt (unsupported type)'', ''c.mp4 (exceeds 15MB limit)''])"
    using validateAll_batch1 by (simp add: app1_def)
  have "replicate (Suc k) CHR ''u'' \<noteq> ''u''" if "k \<ge> 1" for k
  proof
    assume "replicate (Suc k) CHR ''u'' = ''u''"
    then have "length (replicate (Suc k) CHR ''u'') = length ''u''" by simp
    with that show False by simp
  qed
  then have fresh: "\<forall>f \<in> set (files app1). \<forall>k \<ge> created app1. id_f f \<noteq> randomUUID env0 k"
    by (simp add: app1_def rec_u_def env0_def)
  have f: "files app1 @ map (\<lambda>f. f\<lparr>status := Uploading, progress := Num 0\<rparr>)
                          [newFileInfo env0 1 file_a]
             = [rec_u, rec_started]"
    by (simp add: app1_def newFileInfo_def file_a_def rec_started_def env0_def)
  have st: "map status (files app1) @ replicate (length [newFileInfo env0 1 file_a]) Uploading
              = [Success, Uploading]"
    by (simp add: app1_def rec_u_def)
  have r: "requests app1 @ map (\<lambda>f. Fetch (name f) (type f)) [newFileInfo env0 1 file_a]
             = [Fetch ''a.png'' ''image/png'']"
    by (simp add: app1_def newFileInfo_def file_a_def)
  have t: "inflight app1
             @ map (\<lambda>f. (id_f f, uploadFile_async f (always_fails (id_f f))))
                 [newFileInfo env0 1 file_a]
           = [(''uu'', [AxiosPut (Some ''https://u'') ''image/png'',
                        SetFiles ''uu'' (ToProgress (Num 40)),
                        SetFiles ''uu'' (ToError ''Network Error'')])]"
    by (simp add: app1_def newFileInfo_def file_a_def env0_def always_fails_def
        uploadFile_async_def attempt_fails_at_40_def catch_block_def percentCompleted_def
        total_or_size_def percent_of_400_1000)
  note T = intake_appends_and_starts [OF v fresh, of always_fails]
  from T have "files ?s' = files app1 @ map (\<lambda>f. f\<lparr>status := Uploading, progress := Num 0\<rparr>)
                                           [newFileInfo env0 1 file_a]"
    by (rule conjunct1)
  then have 1: "files ?s' = [rec_u, rec_started]"
    by (simp only: f)
  from T have "map status (files ?s')
                 = map status (files app1) @ replicate (length [newFileInfo env0 1 file_a]) Uploading"
    by blast
  then have 2: "map status (files ?s') = [Success, Uploading]"
    by (simp only: st)
  from T have "requests ?s'
                 = requests app1 @ map (\<lambda>f. Fetch (name f) (type f)) [newFileInfo env0 1 file_a]"
    by blast
  then have 3: "requests ?s' = [Fetch ''a.png'' ''image/png'']"
    by (simp only: r)
  from T have "inflight ?s'
                 = inflight app1
                   @ map (\<lambda>f. (id_f f, uploadFile_async f (always_fails (id_f f))))
                       [newFileInfo env0 1 file_a]"
    by blast
  then have 4: "inflight ?s'
                  = [(''uu'', [AxiosPut (Some ''https://u'') ''image/png'',
                               SetFiles ''uu'' (ToProgress (Num 40)),
                               SetFiles ''uu'' (ToError ''Network Error'')])]"
    by (simp only: t)
  have 0: "files app1 = [rec_u]"
    by (simp add: app1_def)
  from T have "status (newFileInfo env0 1 file_a) = Pending"
    by simp
  moreover have "status rec_started = Uploading \<and> progress rec_started = Num 0"
    by (simp add: rec_started_def)
  ultimately show ?thesis
    using v 0 1 2 3 4 by blast
qed

section \<open>The advisory message belongs to the last batch\<close>

text \<open>
  C10. \<open>validateAndAddFiles\<close> sets \<open>fileError\<close> to the empty string before it looks at the
  batch, and sets it again only when the batch has rejected candidates. So after the call
  the message is determined by the rejections of this batch alone, whatever the message
  was before: it is empty when the batch has no rejected candidate (in particular when
  every candidate passes both tests), and otherwise lists the rejections of this batch.
\<close>

theorem intake_resets_fileError:
  assumes "validateAll env (created s) selectedFiles = (newFiles, invalidFiles)"
  shows "fileError (validateAndAddFiles env attempts selectedFiles s)
           = (if invalidFiles = [] then []
              else ''Some files were not added: '' @ join invalidFiles)
       \<and> fileError (validateAndAddFiles env attempts selectedFiles (s\<lparr>fileError := e\<rparr>))
           = fileError (validateAndAddFiles env attempts selectedFiles s)
       \<and> ((\<forall>c \<in> set selectedFiles. type c \<in> set ALLOWED_TYPES \<and> size_f c \<le> MAX_FILE_SIZE)
            \<longrightarrow> fileError (validateAndAddFiles env attempts selectedFiles s) = [])"
proof -
  have 1: "fileError (validateAndAddFiles env attempts selectedFiles s)
           = (if invalidFiles = [] then []
              else ''Some files were not added: '' @ join invalidFiles)"
    by (rule fileError_validateAndAddFiles [OF assms])
  have "validateAll env (created (s\<lparr>fileError := e\<rparr>)) selectedFiles = (newFiles, invalidFiles)"
    using assms by simp
  from fileError_validateAndAddFiles [OF this] 1
  have 2: "fileError (validateAndAddFiles env attempts selectedFiles (s\<lparr>fileError := e\<rparr>))
           = fileError (validateAndAddFiles env attempts selectedFiles s)"
    by simp
  have 3: "fileError (validateAndAddFiles env attempts selectedFiles s) = []"
    if "\<forall>c \<in> set selectedFiles. type c \<in> set ALLOWED_TYPES \<and> size_f c \<le> MAX_FILE_SIZE"
  proof -
    from that have "\<forall>c \<in> set selectedFiles. passes c"
      by (auto simp: passes_def)
    then have "filter (\<lambda>c. \<not> passes c) selectedFiles = []"
      by (simp add: filter_empty_conv)
    with assms have "invalidFiles = []"
      by (simp add: validateAll_eq)
    with 1 show ?thesis by simp
  qed
  from 1 2 3 show ?thesis by blast
qed

theorem intake_resets_fileError_witness:
  "validateAll env0 (created app0) [file_a] = ([newFileInfo env0 0 file_a], [])
   \<and> fileError app0 = ''Some files were not added: b.txt (unsupported type)''
   \<and> fileError (validateAndAddFiles env0 always_fails [file_a] app0) = []"
proof -
  have v: "validateAll env0 (created app0) [file_a] = ([newFileInfo env0 0 file_a], [])"
    by (simp add: validateAll_def validateOne_def ALLOWED_TYPES_def MAX_FILE_SIZE_def
        file_a_def app0_def)
  have p: "\<forall>c \<in> set [file_a]. type c \<in> set ALLOWED_TYPES \<and> size_f c \<le> MAX_FILE_SIZE"
    by (simp add: ALLOWED_TYPES_def MAX_FILE_SIZE_def file_a_def)
  have e: "fileError app0 = ''Some files were not added: b.txt (unsupported type)''"
    by (simp add: app0_def)
  from intake_resets_fileError [OF v, of always_fails] p
  have "fileError (validateAndAddFiles env0 always_fails [file_a] app0) = []"
    by blast
  with v e show ?thesis by blast
qed

section \<open>The course of one attempt\<close>

lemma final_record_id [simp]: "id_f (final_record f es) = id_f f"
  by (induction f es rule: final_record.induct) simp_all

lemma final_record_append: "final_record f (es @ es') = final_record (final_record f es) es'"
  by (induction f es rule: final_record.induct) simp_all


lemma final_record_no_updates: "run_updates f es = [] \<Longrightarrow> final_record f es = f"
  by (induction f es rule: run_updates.induct) (auto split: if_splits)

lemma last_run_updates:
  "run_updates f es \<noteq> [] \<Longrightarrow> last (run_updates f es) = final_record f es"
  by (induction f es rule: run_updates.induct) (auto simp: final_record_no_updates)

lemma final_record_progress:
  "final_record f (map (\<lambda>x. SetFiles (id_f f) (ToProgress (p x))) xs)
     = f\<lparr>progress := progress (final_record f
                                   (map (\<lambda>x. SetFiles (id_f f) (ToProgress (p x))) xs))\<rparr>"
proof (induction xs arbitrary: f)
  case Nil
  then show ?case by simp
next
  case (Cons x xs)
  let ?g = "f\<lparr>progress := p x\<rparr>"
  let ?es = "map (\<lambda>x. SetFiles (id_f f) (ToProgress (p x))) xs"
  from Cons.IH [of ?g]
  have "final_record ?g ?es = ?g\<lparr>progress := progress (final_record ?g ?es)\<rparr>"
    by simp
  then have "final_record ?g ?es = f\<lparr>progress := progress (final_record ?g ?es)\<rparr>"
    by simp
  then show ?case by simp
qed



lemma final_record_transfer:
  "final_record fileInfo
     ([SetFiles (id_f fileInfo) ToUploading, Fetch filename filetype, AxiosPut target contentType]
      @ map (\<lambda>x. SetFiles (id_f fileInfo) (ToProgress (p x))) xs)
   = fileInfo\<lparr>status := Uploading,
       progress := progress (final_record fileInfo
         ([SetFiles (id_f fileInfo) ToUploading, Fetch filename filetype,
           AxiosPut target contentType]
          @ map (\<lambda>x. SetFiles (id_f fileInfo) (ToProgress (p x))) xs))\<rparr>"
proof -
  let ?g = "fileInfo\<lparr>status := Uploading, progress := Num 0\<rparr>"
  let ?es = "map (\<lambda>x. SetFiles (id_f fileInfo) (ToProgress (p x))) xs"
  have "final_record ?g ?es = ?g\<lparr>progress := progress (final_record ?g ?es)\<rparr>"
    using final_record_progress [of ?g p xs] by simp
  then have "final_record ?g ?es
               = fileInfo\<lparr>status := Uploading, progress := progress (final_record ?g ?es)\<rparr>"
    by simp
  then show ?thesis by simp
qed



lemma uploadFile_put_fulfilled:
  assumes "fetch_result a = Fulfilled response" and "ok response"
    and "json response = Fulfilled presignedUrl" and "put_result a = Fulfilled v"
  shows "uploadFile fileInfo a
           = ([SetFiles (id_f fileInfo) ToUploading, Fetch (name fileInfo) (type fileInfo),
               AxiosPut (url_p presignedUrl) (type fileInfo)]
              @ map (\<lambda>progressEvent. SetFiles (id_f fileInfo)
                       (ToProgress (percentCompleted progressEvent fileInfo)))
                  (progressEvents a))
             @ [SetFiles (id_f fileInfo) (ToSuccess presignedUrl)]"
  using assms by (simp add: uploadFile_def uploadFile_sync_def uploadFile_async_def)

section \<open>The URL of a finished upload\<close>

lemma succeeded_attempt:
  assumes "fetch_result a = Fulfilled response" and "ok response"
    and "json response = Fulfilled presignedUrl" and "put_result a = Fulfilled v"
  shows "final_record fileInfo (uploadFile fileInfo a)
           = fileInfo\<lparr>status := Success, progress := Num 100,
               url := Some (''https://'' @ template (bucket_p presignedUrl)
                            @ ''.s3.amazonaws.com/'' @ template (key_p presignedUrl))\<rparr>"
proof -
  let ?es = "[SetFiles (id_f fileInfo) ToUploading, Fetch (name fileInfo) (type fileInfo),
               AxiosPut (url_p presignedUrl) (type fileInfo)]
              @ map (\<lambda>progressEvent. SetFiles (id_f fileInfo)
                       (ToProgress (percentCompleted progressEvent fileInfo)))
                  (progressEvents a)"
  let ?u = "Some (''https://'' @ template (bucket_p presignedUrl)
                  @ ''.s3.amazonaws.com/'' @ template (key_p presignedUrl))"
  have u: "uploadFile fileInfo a = ?es @ [SetFiles (id_f fileInfo) (ToSuccess presignedUrl)]"
    by (rule uploadFile_put_fulfilled [OF assms])
  have "final_record fileInfo ?es
          = fileInfo\<lparr>status := Uploading, progress := progress (final_record fileInfo ?es)\<rparr>"
    by (rule final_record_transfer)
  then have "(final_record fileInfo ?es)\<lparr>status := Success, progress := Num 100, url := ?u\<rparr>
      = (fileInfo\<lparr>status := Uploading, progress := progress (final_record fileInfo ?es)\<rparr>)
          \<lparr>status := Success, progress := Num 100, url := ?u\<rparr>"
    by (rule arg_cong)
  then show ?thesis
    unfolding u final_record_append by simp
qed

lemma success_url_ends_with_key:
  "suffix (template (key_p presignedUrl))
     (''https://'' @ template (bucket_p presignedUrl) @ ''.s3.amazonaws.com/''
      @ template (key_p presignedUrl))"
  by (simp add: suffix_def)

lemma show_nat_123: "show_nat 123 = ''123''"
  by (simp add: show_nat.simps digit_def)

text \<open>
  C7, evaluated on Scenario A. The backend, deployed for the bucket \<open>my-bucket\<close>, answers
  with the properties \<open>url\<close> and \<open>key\<close> and no property \<open>bucket\<close>. After the transfer has
  succeeded the record is \<open>success\<close> with progress \<open>100\<close>, and its \<open>url\<close> ends with the key,
  but in place of the bucket it has the text "undefined"; the URL that
  \<open>/confirm-upload\<close> computes for the same key names the bucket.
\<close>

theorem scenario_a_remote_url:
  "reply_a = (200, [(''url'', JString ''https://u''), (''key'', JString ''uploads/123-a.png'')])
   \<and> final_record rec_a (uploadFile rec_a attempt_a)
       = rec_a\<lparr>status := Success, progress := Num 100,
           url := Some ''https://undefined.s3.amazonaws.com/uploads/123-a.png''\<rparr>
   \<and> confirm_upload ''my-bucket'' ''uploads/123-a.png''
       = (200, [(''success'', JBool True), (''message'', JString ''Upload confirmed!''),
                (''imageUrl'', JString ''https://my-bucket.s3.amazonaws.com/uploads/123-a.png'')])"
proof -
  have r: "reply_a
      = (200, [(''url'', JString ''https://u''), (''key'', JString ''uploads/123-a.png'')])"
    by (simp add: reply_a_def get_upload_url_def show_nat_123)
  let ?p = "\<lparr>url_p = Some ''https://u'', key_p = Some ''uploads/123-a.png'', bucket_p = None\<rparr>"
  let ?q = "\<lparr>ok = True, statusText = ''OK'', json = Fulfilled ?p\<rparr>"
  have f: "fetch_result attempt_a = Fulfilled ?q"
    by (simp add: attempt_a_def r fetch_response_def reason_phrase_def property_def)
  have p: "put_result attempt_a = Fulfilled ()"
    by (simp add: attempt_a_def)
  have "final_record rec_a (uploadFile rec_a attempt_a)
       = rec_a\<lparr>status := Success, progress := Num 100,
           url := Some (''https://'' @ template (bucket_p ?p) @ ''.s3.amazonaws.com/''
                        @ template (key_p ?p))\<rparr>"
    by (rule succeeded_attempt [OF f _ _ p]) simp_all
  then have s: "final_record rec_a (uploadFile rec_a attempt_a)
       = rec_a\<lparr>status := Success, progress := Num 100,
           url := Some ''https://undefined.s3.amazonaws.com/uploads/123-a.png''\<rparr>"
    by (simp add: template_def)
  have c: "confirm_upload ''my-bucket'' ''uploads/123-a.png''
       = (200, [(''success'', JBool True), (''message'', JString ''Upload confirmed!''),
                (''imageUrl'', JString ''https://my-bucket.s3.amazonaws.com/uploads/123-a.png'')])"
    by (simp add: confirm_upload_def)
  from r s c show ?thesis by blast
qed
section \<open>Failed attempts\<close>








section \<open>Retry\<close>

lemma retryUpload_found:
  assumes "find (\<lambda>f. id_f f = i) (files s) = Some fileToRetry"
  shows "retryUpload i a s = call_uploadFile fileToRetry a s" and "id_f fileToRetry = i"
proof -
  show "retryUpload i a s = call_uploadFile fileToRetry a s"
    using assms by (simp add: retryUpload_def)
  from assms show "id_f fileToRetry = i"
    by (auto simp: find_Some_iff)
qed

text \<open>
  C3 as stated fails: retrying the failed record of \<open>app_e\<close> makes it \<open>uploading\<close> with
  progress \<open>0\<close>, and the record still carries the message of the failed attempt.
\<close>

theorem retry_keeps_errorMessage_counterexample:
  "files app_e = [rec_e] \<and> status rec_e = Error
   \<and> files (retryUpload ''u'' attempt_a app_e)
       = [rec_e\<lparr>status := Uploading, progress := Num 0\<rparr>]
   \<and> errorMessage (rec_e\<lparr>status := Uploading, progress := Num 0\<rparr>) = Some ''Network Error''"
  by (simp add: retryUpload_def app_e_def rec_e_def setFiles_def)

text \<open>
  C3, amended. For a record that \<open>retryUpload\<close> finds, the first effect of the new attempt
  is the update that sets the records with this id to \<open>uploading\<close> with progress \<open>0\<close>, and
  the authorization request comes second; after the call the state holds the updated
  records and the request is issued. The update leaves \<open>errorMessage\<close> (and \<open>url\<close>) of
  every record as it was.
\<close>

theorem retry_resets_progress_keeps_message:
  assumes "find (\<lambda>f. id_f f = i) (files s) = Some fileToRetry"
  shows "take 2 (uploadFile fileToRetry a)
           = [SetFiles i ToUploading, Fetch (name fileToRetry) (type fileToRetry)]
       \<and> files (retryUpload i a s)
           = map (\<lambda>f. if id_f f = i then f\<lparr>status := Uploading, progress := Num 0\<rparr> else f)
               (files s)
       \<and> requests (retryUpload i a s)
           = requests s @ [Fetch (name fileToRetry) (type fileToRetry)]
       \<and> map errorMessage (files (retryUpload i a s)) = map errorMessage (files s)
       \<and> map url (files (retryUpload i a s)) = map url (files s)"
proof -
  note r = retryUpload_found [OF assms]
  have 1: "take 2 (uploadFile fileToRetry a)
           = [SetFiles i ToUploading, Fetch (name fileToRetry) (type fileToRetry)]"
    by (simp add: uploadFile_def uploadFile_sync_def r(2))
  have 2: "files (retryUpload i a s)
           = map (\<lambda>f. if id_f f = i then f\<lparr>status := Uploading, progress := Num 0\<rparr> else f)
               (files s)"
    by (simp add: r setFiles_def)
  have 3: "requests (retryUpload i a s)
           = requests s @ [Fetch (name fileToRetry) (type fileToRetry)]"
    by (simp add: r(1))
  have 4: "map errorMessage (files (retryUpload i a s)) = map errorMessage (files s)"
    unfolding 2 by (induction "files s") simp_all
  have 5: "map url (files (retryUpload i a s)) = map url (files s)"
    unfolding 2 by (induction "files s") simp_all
  from 1 2 3 4 5 show ?thesis by blast
qed

theorem retry_resets_progress_keeps_message_witness:
  "find (\<lambda>f. id_f f = ''u'') (files app_e) = Some rec_e
   \<and> take 2 (uploadFile rec_e attempt_a) = [SetFiles ''u'' ToUploading, Fetch ''a.png'' ''image/png'']
   \<and> map status (files (retryUpload ''u'' attempt_a app_e)) = [Uploading]
   \<and> map progress (files (retryUpload ''u'' attempt_a app_e)) = [Num 0]
   \<and> map errorMessage (files (retryUpload ''u'' attempt_a app_e)) = [Some ''Network Error'']
   \<and> requests (retryUpload ''u'' attempt_a app_e) = [Fetch ''a.png'' ''image/png'']"
proof -
  have f: "find (\<lambda>f. id_f f = ''u'') (files app_e) = Some rec_e"
    by (simp add: app_e_def rec_e_def)
  have e: "files app_e = [rec_e]" "requests app_e = []" "id_f rec_e = ''u''"
    "name rec_e = ''a.png''" "type rec_e = ''image/png''"
    "errorMessage rec_e = Some ''Network Error''"
    by (simp_all add: app_e_def rec_e_def)
  from retry_resets_progress_keeps_message [OF f, of attempt_a] f e
  show ?thesis by simp
qed

section \<open>The invariant of the transition system\<close>

lemma rest_ok_Cons: "es \<noteq> [] \<Longrightarrow> rest_ok i (e # es) = (passing i e \<and> rest_ok i es)"
  by (cases es) simp_all

lemma rest_ok_progress:
  "closing i e \<Longrightarrow> rest_ok i (map (\<lambda>x. SetFiles i (ToProgress (p x))) xs @ [e])"
  by (induction xs) (simp_all add: rest_ok_Cons)

lemma rest_ok_catch_block: "rest_ok (id_f fileInfo) (catch_block fileInfo err)"
  by (simp add: catch_block_def)

lemma rest_ok_transfer:
  "closing i e \<Longrightarrow>
     rest_ok i (AxiosPut target contentType # map (\<lambda>x. SetFiles i (ToProgress (p x))) xs @ [e])"
  using rest_ok_progress [of i e p xs] by (simp add: rest_ok_Cons)

lemma rest_ok_uploadFile_async: "rest_ok (id_f fileInfo) (uploadFile_async fileInfo a)"
proof (cases "fetch_result a")
  case (Rejected err)
  then show ?thesis
    by (simp add: uploadFile_async_def rest_ok_catch_block)
next
  case (Fulfilled response)
  show ?thesis
  proof (cases "ok response")
    case False
    with Fulfilled show ?thesis
      by (simp add: uploadFile_async_def rest_ok_catch_block)
  next
    case True
    show ?thesis
    proof (cases "json response")
      case (Rejected err)
      with Fulfilled True show ?thesis
        by (simp add: uploadFile_async_def rest_ok_catch_block)
    next
      case json: (Fulfilled presignedUrl)
      show ?thesis
      proof (cases "put_result a")
        case (Fulfilled v)
        have "rest_ok (id_f fileInfo)
                (AxiosPut (url_p presignedUrl) (type fileInfo)
                 # map (\<lambda>x. SetFiles (id_f fileInfo) (ToProgress (percentCompleted x fileInfo)))
                     (progressEvents a)
                 @ [SetFiles (id_f fileInfo) (ToSuccess presignedUrl)])"
          by (rule rest_ok_transfer) simp
        with \<open>fetch_result a = Fulfilled response\<close> True json Fulfilled show ?thesis
          by (simp add: uploadFile_async_def)
      next
        case (Rejected err)
        have "rest_ok (id_f fileInfo)
                (AxiosPut (url_p presignedUrl) (type fileInfo)
                 # map (\<lambda>x. SetFiles (id_f fileInfo) (ToProgress (percentCompleted x fileInfo)))
                     (progressEvents a)
                 @ [SetFiles (id_f fileInfo)
                      (ToError (case err of ErrorInstance message \<Rightarrow> message
                                | OtherValue \<Rightarrow> ''Failed to upload file''))])"
          by (rule rest_ok_transfer) simp
        with \<open>fetch_result a = Fulfilled response\<close> True json Rejected show ?thesis
          by (simp add: uploadFile_async_def catch_block_def)
      qed
    qed
  qed
qed

lemma inj_lt_ge: "inj f \<Longrightarrow> k < c \<Longrightarrow> c \<le> k' \<Longrightarrow> f k \<noteq> f (k' :: nat)"
  by (auto dest: injD)

lemma new_id_list:
  assumes "validateAll env n0 selectedFiles = (newFiles, invalidFiles)"
  shows "map id_f newFiles = map (randomUUID env) [n0 ..< n0 + length newFiles]"
proof -
  from assms have nf: "newFiles = map (\<lambda>(k, c). newFileInfo env k c)
                          (enumerate n0 (filter passes selectedFiles))"
    by (simp add: validateAll_eq)
  then have "length newFiles = length (filter passes selectedFiles)"
    by simp
  moreover have "map id_f newFiles
      = map (randomUUID env) [n0 ..< n0 + length (filter passes selectedFiles)]"
    unfolding nf by (rule map_id_f_enumerate)
  ultimately show ?thesis by simp
qed

lemma new_records:
  assumes "validateAll env n0 selectedFiles = (newFiles, invalidFiles)"
    and "f \<in> set newFiles"
  shows "status f = Pending \<and> url f = None \<and> errorMessage f = None"
proof -
  from assms(1) have "newFiles = map (\<lambda>(k, c). newFileInfo env k c)
                          (enumerate n0 (filter passes selectedFiles))"
    by (simp add: validateAll_eq)
  with assms(2) obtain k c where "f = newFileInfo env k c"
    by auto
  then show ?thesis by (simp add: newFileInfo_def)
qed

lemma state_after_intake:
  assumes v: "validateAll env (created s) selectedFiles = (newFiles, invalidFiles)"
    and fresh: "\<forall>f \<in> set (files s). \<forall>k \<ge> created s. id_f f \<noteq> randomUUID env k"
  shows "files (validateAndAddFiles env attempts selectedFiles s)
           = files s @ map (apply_update ToUploading) newFiles"
    and "inflight (validateAndAddFiles env attempts selectedFiles s)
           = inflight s @ map (\<lambda>f. (id_f f, uploadFile_async f (attempts (id_f f)))) newFiles"
    and "created (validateAndAddFiles env attempts selectedFiles s)
           = created s + length newFiles"
proof -
  let ?up = "\<lambda>x. if id_f x \<in> id_f ` set newFiles then apply_update ToUploading x else x"
  have "id_f f \<notin> id_f ` set newFiles" if f: "f \<in> set (files s)" for f
  proof
    assume "id_f f \<in> id_f ` set newFiles"
    then have "id_f f \<in> set (map id_f newFiles)" by simp
    then have "id_f f \<in> randomUUID env ` {created s ..< created s + length newFiles}"
      by (simp only: new_id_list [OF v] set_map set_upt)
    then obtain k where "k \<ge> created s" "id_f f = randomUUID env k"
      by auto
    with fresh f show False by blast
  qed
  then have "map ?up (files s) = files s"
    by (simp add: map_idI)
  moreover have "map ?up newFiles = map (apply_update ToUploading) newFiles"
    by simp
  ultimately show "files (validateAndAddFiles env attempts selectedFiles s)
           = files s @ map (apply_update ToUploading) newFiles"
    by (simp add: files_validateAndAddFiles [OF v])
  show "inflight (validateAndAddFiles env attempts selectedFiles s)
           = inflight s @ map (\<lambda>f. (id_f f, uploadFile_async f (attempts (id_f f)))) newFiles"
    by (simp add: validateAndAddFiles_eq [OF v] fold_call_uploadFile)
  show "created (validateAndAddFiles env attempts selectedFiles s)
           = created s + length newFiles"
    by (simp add: validateAndAddFiles_eq [OF v] fold_call_uploadFile)
qed
lemma invariant_validateAndAddFiles:
  assumes inj: "inj (randomUUID env)" and I: "invariant env s"
  shows "invariant env (validateAndAddFiles env attempts selectedFiles s)"
proof -
  let ?s' = "validateAndAddFiles env attempts selectedFiles s"
  let ?c = "created s"
  obtain newFiles invalidFiles
    where v: "validateAll env ?c selectedFiles = (newFiles, invalidFiles)"
    by force
  let ?n = "length newFiles"
  let ?new = "map (\<lambda>f. (id_f f, uploadFile_async f (attempts (id_f f)))) newFiles"
  from I have d1: "distinct (map id_f (files s))" and d2: "distinct (map fst (inflight s))"
    and b1: "\<forall>f \<in> set (files s). \<exists>k < ?c. id_f f = randomUUID env k"
    and b2: "\<forall>t \<in> set (inflight s). \<exists>k < ?c. fst t = randomUUID env k"
    and t1: "\<forall>t \<in> set (inflight s). rest_ok (fst t) (snd t)"
    and t2: "\<forall>f \<in> set (files s). id_f f \<in> fst ` set (inflight s) \<longrightarrow> status f = Uploading"
    and fo: "fields_ok s"
    by (simp_all add: invariant_def ids_ok_def tasks_ok_def)
  have fresh: "\<forall>f \<in> set (files s). \<forall>k \<ge> ?c. id_f f \<noteq> randomUUID env k"
    using b1 inj_lt_ge [OF inj] by metis
  note st = state_after_intake [OF v fresh, of attempts]
  have ids: "map id_f newFiles = map (randomUUID env) [?c ..< ?c + ?n]"
    by (rule new_id_list [OF v])
  have newset: "id_f ` set newFiles = randomUUID env ` {?c ..< ?c + ?n}"
    using arg_cong [OF ids, of set] by (simp only: set_map set_upt)
  have dnew: "distinct (map id_f newFiles)"
    unfolding ids using inj_on_subset [OF inj subset_UNIV] by (simp add: distinct_map)
  have old_new: "id_f f \<notin> id_f ` set newFiles" if "f \<in> set (files s)" for f
    using that fresh unfolding newset by auto
  have task_new: "fst t \<notin> id_f ` set newFiles" if "t \<in> set (inflight s)" for t
  proof -
    from b2 that obtain k where "k < ?c" "fst t = randomUUID env k" by blast
    then show ?thesis
      unfolding newset using inj_lt_ge [OF inj] by auto
  qed
  have mid: "map id_f (files ?s') = map id_f (files s) @ map id_f newFiles"
    by (simp add: st(1) comp_def)
  have mfst: "map fst (inflight ?s') = map fst (inflight s) @ map id_f newFiles"
    by (simp add: st(2) comp_def)
  have A1: "distinct (map id_f (files ?s'))"
    unfolding mid using d1 dnew old_new by auto
  have A2: "distinct (map fst (inflight ?s'))"
    unfolding mfst using d2 dnew task_new by auto
  have A3: "\<exists>k < created ?s'. id_f f = randomUUID env k" if "f \<in> set (files ?s')" for f
  proof -
    from that have "id_f f \<in> set (map id_f (files ?s'))" by simp
    then have "id_f f \<in> id_f ` set (files s) \<or> id_f f \<in> id_f ` set newFiles"
      unfolding mid by auto
    then show ?thesis
    proof
      assume "id_f f \<in> id_f ` set (files s)"
      with b1 obtain k where "k < ?c" "id_f f = randomUUID env k" by auto
      then show ?thesis unfolding st(3) by (auto intro: exI [of _ k])
    next
      assume "id_f f \<in> id_f ` set newFiles"
      then obtain k where "k < ?c + ?n" "id_f f = randomUUID env k"
        unfolding newset by auto
      then show ?thesis unfolding st(3) by blast
    qed
  qed
  have A4: "\<exists>k < created ?s'. fst t = randomUUID env k" if "t \<in> set (inflight ?s')" for t
  proof -
    from that have "fst t \<in> set (map fst (inflight ?s'))" by simp
    then have "fst t \<in> fst ` set (inflight s) \<or> fst t \<in> id_f ` set newFiles"
      unfolding mfst by auto
    then show ?thesis
    proof
      assume "fst t \<in> fst ` set (inflight s)"
      with b2 obtain k where "k < ?c" "fst t = randomUUID env k" by auto
      then show ?thesis unfolding st(3) by (auto intro: exI [of _ k])
    next
      assume "fst t \<in> id_f ` set newFiles"
      then obtain k where "k < ?c + ?n" "fst t = randomUUID env k"
        unfolding newset by auto
      then show ?thesis unfolding st(3) by blast
    qed
  qed
  have B1: "rest_ok (fst t) (snd t)" if "t \<in> set (inflight ?s')" for t
  proof -
    from that have "t \<in> set (inflight s) \<or> t \<in> set ?new"
      unfolding st(2) by simp
    then show ?thesis
    proof
      assume "t \<in> set (inflight s)"
      with t1 show ?thesis by blast
    next
      assume "t \<in> set ?new"
      then obtain f where "t = (id_f f, uploadFile_async f (attempts (id_f f)))"
        by auto
      then show ?thesis by (simp add: rest_ok_uploadFile_async)
    qed
  qed
  have B2: "status f = Uploading"
    if f: "f \<in> set (files ?s')" and "id_f f \<in> fst ` set (inflight ?s')" for f
  proof -
    from f have "f \<in> set (files s) \<or> f \<in> apply_update ToUploading ` set newFiles"
      unfolding st(1) by simp
    then show ?thesis
    proof
      assume old: "f \<in> set (files s)"
      from that(2) have "id_f f \<in> set (map fst (inflight ?s'))" by simp
      then have "id_f f \<in> fst ` set (inflight s) \<or> id_f f \<in> id_f ` set newFiles"
        unfolding mfst by auto
      with old_new [OF old] have "id_f f \<in> fst ` set (inflight s)" by blast
      with t2 old show ?thesis by blast
    next
      assume "f \<in> apply_update ToUploading ` set newFiles"
      then show ?thesis by auto
    qed
  qed
  have C: "(url f \<noteq> None \<longleftrightarrow> status f = Success) \<and> (status f = Error \<longrightarrow> errorMessage f \<noteq> None)"
    if f: "f \<in> set (files ?s')" for f
  proof -
    from f have "f \<in> set (files s) \<or> f \<in> apply_update ToUploading ` set newFiles"
      unfolding st(1) by simp
    then show ?thesis
    proof
      assume "f \<in> set (files s)"
      with fo show ?thesis unfolding fields_ok_def by blast
    next
      assume "f \<in> apply_update ToUploading ` set newFiles"
      then obtain g where g: "g \<in> set newFiles" "f = apply_update ToUploading g"
        by auto
      from new_records [OF v g(1)] g(2) show ?thesis by simp
    qed
  qed
  from A1 A2 A3 A4 have "ids_ok env ?s'"
    unfolding ids_ok_def by blast
  moreover from B1 B2 have "tasks_ok ?s'"
    unfolding tasks_ok_def by blast
  moreover from C have "fields_ok ?s'"
    unfolding fields_ok_def by blast
  ultimately show ?thesis
    unfolding invariant_def by blast
qed
lemma invariant_removeFile:
  assumes I: "invariant env s"
  shows "invariant env (s\<lparr>files := removeFile i (files s)\<rparr>)"
proof -
  have sub: "set (removeFile i (files s)) \<subseteq> set (files s)"
    by (auto simp: removeFile_def)
  have "distinct (map id_f (removeFile i (files s)))"
    using I by (simp add: invariant_def ids_ok_def removeFile_def distinct_map_filter)
  with I sub have "ids_ok env (s\<lparr>files := removeFile i (files s)\<rparr>)"
    by (auto simp: invariant_def ids_ok_def)
  moreover from I sub have "tasks_ok (s\<lparr>files := removeFile i (files s)\<rparr>)"
    by (auto simp: invariant_def tasks_ok_def)
  moreover from I sub have "fields_ok (s\<lparr>files := removeFile i (files s)\<rparr>)"
    unfolding invariant_def fields_ok_def by (simp add: subset_iff)
  ultimately show ?thesis
    unfolding invariant_def by blast
qed

lemma same_id_same_record:
  "distinct (map id_f fs) \<Longrightarrow> f \<in> set fs \<Longrightarrow> g \<in> set fs \<Longrightarrow> id_f f = id_f g \<Longrightarrow> f = g"
  by (auto simp: distinct_map dest: inj_onD)

lemma in_setFiles:
  "h \<in> set (setFiles i u fs) \<Longrightarrow>
     (h \<in> set fs \<and> id_f h \<noteq> i) \<or> (\<exists>g \<in> set fs. id_f g = i \<and> h = apply_update u g)"
  by (auto simp: setFiles_def)

lemma invariant_retryUpload:
  assumes I: "invariant env s" and en: "i \<in> set (retry_buttons (files s))"
  shows "invariant env (retryUpload i a s)"
proof -
  let ?s' = "retryUpload i a s"
  from I have d1: "distinct (map id_f (files s))" and d2: "distinct (map fst (inflight s))"
    and b1: "\<forall>f \<in> set (files s). \<exists>k < created s. id_f f = randomUUID env k"
    and b2: "\<forall>t \<in> set (inflight s). \<exists>k < created s. fst t = randomUUID env k"
    and t1: "\<forall>t \<in> set (inflight s). rest_ok (fst t) (snd t)"
    and t2: "\<forall>f \<in> set (files s). id_f f \<in> fst ` set (inflight s) \<longrightarrow> status f = Uploading"
    and fo: "\<forall>f \<in> set (files s). (url f \<noteq> None \<longleftrightarrow> status f = Success)
                                   \<and> (status f = Error \<longrightarrow> errorMessage f \<noteq> None)"
    by (simp_all add: invariant_def ids_ok_def tasks_ok_def fields_ok_def)
  from en obtain f where f: "f \<in> set (files s)" "id_f f = i" "status f = Error"
    by (auto simp: retry_buttons_def)
  then have "find (\<lambda>f. id_f f = i) (files s) \<noteq> None"
    by (auto simp: find_None_iff)
  then obtain g where g: "find (\<lambda>f. id_f f = i) (files s) = Some g"
    by blast
  note r = retryUpload_found [OF g]
  have notin: "i \<notin> fst ` set (inflight s)"
    using t2 f by auto
  have only: "h = f" if "h \<in> set (files s)" "id_f h = i" for h
    using same_id_same_record [OF d1 that(1) f(1)] that(2) f(2) by simp
  have F: "files ?s' = setFiles i ToUploading (files s)"
    and T: "inflight ?s' = inflight s @ [(i, uploadFile_async g a)]"
    and C: "created ?s' = created s"
    by (simp_all add: r)
  have A1: "distinct (map id_f (files ?s'))"
    unfolding F using d1 by simp
  have A2: "distinct (map fst (inflight ?s'))"
    unfolding T using d2 notin by simp
  have A3: "\<forall>h \<in> set (files ?s'). \<exists>k < created ?s'. id_f h = randomUUID env k"
  proof
    fix h assume "h \<in> set (files ?s')"
    then have "id_f h \<in> set (map id_f (files ?s'))" by simp
    then have "id_f h \<in> id_f ` set (files s)"
      unfolding F by simp
    with b1 show "\<exists>k < created ?s'. id_f h = randomUUID env k"
      unfolding C by auto
  qed
  have A4: "\<forall>t \<in> set (inflight ?s'). \<exists>k < created ?s'. fst t = randomUUID env k"
    unfolding T C using b2 b1 f by auto
  have B1: "\<forall>t \<in> set (inflight ?s'). rest_ok (fst t) (snd t)"
    unfolding T using t1 rest_ok_uploadFile_async [of g a] r(2) by auto
  have B2: "\<forall>h \<in> set (files ?s'). id_f h \<in> fst ` set (inflight ?s') \<longrightarrow> status h = Uploading"
  proof (intro ballI impI)
    fix h assume h: "h \<in> set (files ?s')" and m: "id_f h \<in> fst ` set (inflight ?s')"
    from in_setFiles [OF h [unfolded F]] show "status h = Uploading"
    proof
      assume o: "h \<in> set (files s) \<and> id_f h \<noteq> i"
      with m have "id_f h \<in> fst ` set (inflight s)"
        unfolding T by auto
      with t2 o show ?thesis by blast
    next
      assume "\<exists>g \<in> set (files s). id_f g = i \<and> h = apply_update ToUploading g"
      then show ?thesis by auto
    qed
  qed
  have Cc: "\<forall>h \<in> set (files ?s'). (url h \<noteq> None \<longleftrightarrow> status h = Success)
                                    \<and> (status h = Error \<longrightarrow> errorMessage h \<noteq> None)"
  proof
    fix h assume h: "h \<in> set (files ?s')"
    from in_setFiles [OF h [unfolded F]]
    show "(url h \<noteq> None \<longleftrightarrow> status h = Success) \<and> (status h = Error \<longrightarrow> errorMessage h \<noteq> None)"
    proof
      assume "h \<in> set (files s) \<and> id_f h \<noteq> i"
      with fo show ?thesis by blast
    next
      assume "\<exists>g \<in> set (files s). id_f g = i \<and> h = apply_update ToUploading g"
      then obtain g' where g': "g' \<in> set (files s)" "id_f g' = i" "h = apply_update ToUploading g'"
        by blast
      from only [OF g'(1,2)] have "g' = f" .
      with fo f have "url g' = None" by auto
      with g'(3) show ?thesis by simp
    qed
  qed
  from A1 A2 A3 A4 have "ids_ok env ?s'"
    unfolding ids_ok_def by blast
  moreover from B1 B2 have "tasks_ok ?s'"
    unfolding tasks_ok_def by blast
  moreover from Cc have "fields_ok ?s'"
    unfolding fields_ok_def by blast
  ultimately show ?thesis
    unfolding invariant_def by blast
qed
lemma closingE:
  "closing i e \<Longrightarrow>
     (\<exists>p. e = SetFiles i (ToSuccess p)) \<or> (\<exists>m. e = SetFiles i (ToError m))"
  by (cases "(i, e)" rule: closing.cases) auto

lemma passingE:
  "passing i e \<Longrightarrow>
     (\<exists>p. e = SetFiles i (ToProgress p)) \<or> (\<exists>x y. e = Fetch x y) \<or> (\<exists>x y. e = AxiosPut x y)"
  by (cases "(i, e)" rule: passing.cases) auto

lemma split_at_index:
  assumes "k < length ts"
  shows "ts = take k ts @ ts ! k # drop (Suc k) ts"
    and "ts[k := x] = take k ts @ x # drop (Suc k) ts"
  using assms by (simp_all add: id_take_nth_drop [symmetric] upd_conv_take_nth_drop)

lemma resume_last:
  assumes "k < length (inflight s)" and "inflight s ! k = (i, [e])"
  shows "resume k s = perform e (s\<lparr>inflight := take k (inflight s) @ drop (Suc k) (inflight s)\<rparr>)"
  using assms by (simp add: resume_def)

lemma resume_next:
  assumes "k < length (inflight s)" and "inflight s ! k = (i, e # es)" and "es \<noteq> []"
  shows "resume k s
           = perform e (s\<lparr>inflight := take k (inflight s) @ (i, es) # drop (Suc k) (inflight s)\<rparr>)"
  using assms by (simp add: resume_def split_at_index(2))

text \<open>The last update of an attempt closes it.\<close>

lemma invariant_close:
  assumes I: "invariant env s" and ts: "inflight s = pre @ (i, [SetFiles i u]) # post"
    and u: "(\<exists>p. u = ToSuccess p) \<or> (\<exists>m. u = ToError m)"
  shows "invariant env (perform (SetFiles i u) (s\<lparr>inflight := pre @ post\<rparr>))"
proof -
  let ?s' = "perform (SetFiles i u) (s\<lparr>inflight := pre @ post\<rparr>)"
  from I have d1: "distinct (map id_f (files s))" and d2: "distinct (map fst (inflight s))"
    and b1: "\<forall>f \<in> set (files s). \<exists>k < created s. id_f f = randomUUID env k"
    and b2: "\<forall>t \<in> set (inflight s). \<exists>k < created s. fst t = randomUUID env k"
    and t1: "\<forall>t \<in> set (inflight s). rest_ok (fst t) (snd t)"
    and t2: "\<forall>f \<in> set (files s). id_f f \<in> fst ` set (inflight s) \<longrightarrow> status f = Uploading"
    and fo: "\<forall>f \<in> set (files s). (url f \<noteq> None \<longleftrightarrow> status f = Success)
                                   \<and> (status f = Error \<longrightarrow> errorMessage f \<noteq> None)"
    by (simp_all add: invariant_def ids_ok_def tasks_ok_def fields_ok_def)
  have F: "files ?s' = setFiles i u (files s)" and T: "inflight ?s' = pre @ post"
    and C: "created ?s' = created s"
    by simp_all
  have sub: "set (pre @ post) \<subseteq> set (inflight s)"
    unfolding ts by auto
  have gone: "i \<notin> fst ` set (pre @ post)"
    using d2 unfolding ts by auto
  have here: "i \<in> fst ` set (inflight s)"
    unfolding ts by force
  have A1: "distinct (map id_f (files ?s'))"
    unfolding F using d1 by simp
  have A2: "distinct (map fst (inflight ?s'))"
    unfolding T using d2 unfolding ts by simp
  have A3: "\<forall>h \<in> set (files ?s'). \<exists>k < created ?s'. id_f h = randomUUID env k"
  proof
    fix h assume "h \<in> set (files ?s')"
    then have "h \<in> set (setFiles i u (files s))" by simp
    from in_setFiles [OF this] have "id_f h \<in> id_f ` set (files s)"
      by auto
    with b1 show "\<exists>k < created ?s'. id_f h = randomUUID env k"
      unfolding C by auto
  qed
  have A4: "\<forall>t \<in> set (inflight ?s'). \<exists>k < created ?s'. fst t = randomUUID env k"
    unfolding T C using b2 sub by blast
  have B1: "\<forall>t \<in> set (inflight ?s'). rest_ok (fst t) (snd t)"
    unfolding T using t1 sub by blast
  have B2: "\<forall>h \<in> set (files ?s'). id_f h \<in> fst ` set (inflight ?s') \<longrightarrow> status h = Uploading"
  proof (intro ballI impI)
    fix h assume h: "h \<in> set (files ?s')" and m: "id_f h \<in> fst ` set (inflight ?s')"
    from in_setFiles [OF h [unfolded F]] show "status h = Uploading"
    proof
      assume o: "h \<in> set (files s) \<and> id_f h \<noteq> i"
      from m sub have "id_f h \<in> fst ` set (inflight s)"
        unfolding T by blast
      with t2 o show ?thesis by blast
    next
      assume "\<exists>g \<in> set (files s). id_f g = i \<and> h = apply_update u g"
      then have "id_f h = i" by auto
      with m gone show ?thesis unfolding T by simp
    qed
  qed
  have Cc: "\<forall>h \<in> set (files ?s'). (url h \<noteq> None \<longleftrightarrow> status h = Success)
                                    \<and> (status h = Error \<longrightarrow> errorMessage h \<noteq> None)"
  proof
    fix h assume h: "h \<in> set (files ?s')"
    from in_setFiles [OF h [unfolded F]]
    show "(url h \<noteq> None \<longleftrightarrow> status h = Success) \<and> (status h = Error \<longrightarrow> errorMessage h \<noteq> None)"
    proof
      assume "h \<in> set (files s) \<and> id_f h \<noteq> i"
      with fo show ?thesis by blast
    next
      assume "\<exists>g \<in> set (files s). id_f g = i \<and> h = apply_update u g"
      then obtain g where g: "g \<in> set (files s)" "id_f g = i" "h = apply_update u g"
        by blast
      from t2 g(1,2) here have "status g = Uploading" by blast
      with fo g(1) have "url g = None" by auto
      with g(3) u show ?thesis by auto
    qed
  qed
  from A1 A2 A3 A4 have "ids_ok env ?s'"
    unfolding ids_ok_def by blast
  moreover from B1 B2 have "tasks_ok ?s'"
    unfolding tasks_ok_def by blast
  moreover from Cc have "fields_ok ?s'"
    unfolding fields_ok_def by blast
  ultimately show ?thesis
    unfolding invariant_def by blast
qed

text \<open>An effect before the last one leaves ids, statuses, URLs and messages alone.\<close>

lemma invariant_pass:
  assumes I: "invariant env s" and ts: "inflight s = pre @ (i, e # es) # post"
    and es: "es \<noteq> []"
  shows "invariant env (perform e (s\<lparr>inflight := pre @ (i, es) # post\<rparr>))"
proof -
  let ?s' = "perform e (s\<lparr>inflight := pre @ (i, es) # post\<rparr>)"
  from I have d1: "distinct (map id_f (files s))" and d2: "distinct (map fst (inflight s))"
    and b1: "\<forall>f \<in> set (files s). \<exists>k < created s. id_f f = randomUUID env k"
    and b2: "\<forall>t \<in> set (inflight s). \<exists>k < created s. fst t = randomUUID env k"
    and t1: "\<forall>t \<in> set (inflight s). rest_ok (fst t) (snd t)"
    and t2: "\<forall>f \<in> set (files s). id_f f \<in> fst ` set (inflight s) \<longrightarrow> status f = Uploading"
    and fo: "\<forall>f \<in> set (files s). (url f \<noteq> None \<longleftrightarrow> status f = Success)
                                   \<and> (status f = Error \<longrightarrow> errorMessage f \<noteq> None)"
    by (simp_all add: invariant_def ids_ok_def tasks_ok_def fields_ok_def)
  from t1 have "rest_ok i (e # es)"
    unfolding ts by simp
  with es have p: "passing i e" and r: "rest_ok i es"
    by (simp_all add: rest_ok_Cons)
  have T: "inflight ?s' = pre @ (i, es) # post" and C: "created ?s' = created s"
    by (cases e; simp)+
  have ids: "map id_f (files ?s') = map id_f (files s)"
    by (cases e) simp_all
  have like: "\<exists>g \<in> set (files s). id_f h = id_f g \<and> status h = status g \<and> url h = url g
                \<and> errorMessage h = errorMessage g"
    if h: "h \<in> set (files ?s')" for h
  proof -
    from passingE [OF p] consider q where "e = SetFiles i (ToProgress q)"
      | "files ?s' = files s"
      by (cases e) auto
    then show ?thesis
    proof cases
      case 1
      with h have "h \<in> set (setFiles i (ToProgress q) (files s))" by simp
      from in_setFiles [OF this] show ?thesis by auto
    next
      case 2
      with h show ?thesis by auto
    qed
  qed
  have fsts: "map fst (inflight ?s') = map fst (inflight s)"
    unfolding T ts by simp
  then have fset: "fst ` set (inflight ?s') = fst ` set (inflight s)"
    by (metis set_map)
  have A1: "distinct (map id_f (files ?s'))"
    unfolding ids by (rule d1)
  have A2: "distinct (map fst (inflight ?s'))"
    unfolding fsts by (rule d2)
  have A3: "\<forall>h \<in> set (files ?s'). \<exists>k < created ?s'. id_f h = randomUUID env k"
  proof
    fix h assume "h \<in> set (files ?s')"
    from like [OF this] b1 show "\<exists>k < created ?s'. id_f h = randomUUID env k"
      unfolding C by auto
  qed
  have A4: "\<forall>t \<in> set (inflight ?s'). \<exists>k < created ?s'. fst t = randomUUID env k"
  proof
    fix t assume "t \<in> set (inflight ?s')"
    then have "fst t \<in> fst ` set (inflight ?s')" by simp
    then have "fst t \<in> fst ` set (inflight s)" unfolding fset .
    then obtain t' where "t' \<in> set (inflight s)" "fst t = fst t'"
      by blast
    with b2 show "\<exists>k < created ?s'. fst t = randomUUID env k"
      unfolding C by metis
  qed
  have B1: "\<forall>t \<in> set (inflight ?s'). rest_ok (fst t) (snd t)"
    unfolding T using t1 r unfolding ts by auto
  have B2: "\<forall>h \<in> set (files ?s'). id_f h \<in> fst ` set (inflight ?s') \<longrightarrow> status h = Uploading"
  proof (intro ballI impI)
    fix h assume h: "h \<in> set (files ?s')" and m: "id_f h \<in> fst ` set (inflight ?s')"
    from like [OF h] obtain g where g: "g \<in> set (files s)" "id_f h = id_f g" "status h = status g"
      by blast
    from m g(2) have "id_f g \<in> fst ` set (inflight s)"
      unfolding fset by simp
    with t2 g(1) have "status g = Uploading" by blast
    with g(3) show "status h = Uploading" by simp
  qed
  have Cc: "\<forall>h \<in> set (files ?s'). (url h \<noteq> None \<longleftrightarrow> status h = Success)
                                    \<and> (status h = Error \<longrightarrow> errorMessage h \<noteq> None)"
  proof
    fix h assume h: "h \<in> set (files ?s')"
    from like [OF h] obtain g where g: "g \<in> set (files s)" "status h = status g" "url h = url g"
      "errorMessage h = errorMessage g"
      by blast
    from fo g(1) have "(url g \<noteq> None \<longleftrightarrow> status g = Success)
                        \<and> (status g = Error \<longrightarrow> errorMessage g \<noteq> None)"
      by blast
    then show "(url h \<noteq> None \<longleftrightarrow> status h = Success) \<and> (status h = Error \<longrightarrow> errorMessage h \<noteq> None)"
      unfolding g(2,3,4) .
  qed
  from A1 A2 A3 A4 have "ids_ok env ?s'"
    unfolding ids_ok_def by blast
  moreover from B1 B2 have "tasks_ok ?s'"
    unfolding tasks_ok_def by blast
  moreover from Cc have "fields_ok ?s'"
    unfolding fields_ok_def by blast
  ultimately show ?thesis
    unfolding invariant_def by blast
qed

lemma invariant_resume:
  assumes I: "invariant env s" and k: "k < length (inflight s)"
  shows "invariant env (resume k s)"
proof -
  obtain i rest where nth: "inflight s ! k = (i, rest)"
    by force
  let ?pre = "take k (inflight s)" and ?post = "drop (Suc k) (inflight s)"
  have ts: "inflight s = ?pre @ (i, rest) # ?post"
    using split_at_index(1) [OF k] nth by simp
  from I have "rest_ok (fst (inflight s ! k)) (snd (inflight s ! k))"
    using k by (simp add: invariant_def tasks_ok_def)
  then have ok: "rest_ok i rest"
    by (simp add: nth)
  then obtain e es where rest: "rest = e # es"
    by (cases rest) auto
  show ?thesis
  proof (cases "es = []")
    case True
    with ok rest have "closing i e" by simp
    from closingE [OF this] obtain u where e: "e = SetFiles i u"
      and u: "(\<exists>p. u = ToSuccess p) \<or> (\<exists>m. u = ToError m)"
      by blast
    have "resume k s = perform (SetFiles i u) (s\<lparr>inflight := ?pre @ ?post\<rparr>)"
      using resume_last [OF k, of i e] nth rest True e by simp
    moreover have "inflight s = ?pre @ (i, [SetFiles i u]) # ?post"
      using ts unfolding rest True e .
    then have "invariant env (perform (SetFiles i u) (s\<lparr>inflight := ?pre @ ?post\<rparr>))"
      using u by (rule invariant_close [OF I])
    ultimately show ?thesis by simp
  next
    case False
    have "resume k s = perform e (s\<lparr>inflight := ?pre @ (i, es) # ?post\<rparr>)"
      using resume_next [OF k _ False, of i e] nth rest by simp
    moreover have "inflight s = ?pre @ (i, e # es) # ?post"
      using ts unfolding rest .
    then have "invariant env (perform e (s\<lparr>inflight := ?pre @ (i, es) # ?post\<rparr>))"
      using False by (rule invariant_pass [OF I])
    ultimately show ?thesis by simp
  qed
qed

lemma invariant_step:
  assumes "inj (randomUUID env)" and "invariant env s"
  shows "invariant env (step env e s)"
proof (cases e)
  case (SelectFiles selectedFiles attempts)
  with assms show ?thesis
    by (simp add: invariant_validateAndAddFiles)
next
  case (ClickRemove i)
  with assms(2) show ?thesis
    by (simp add: invariant_removeFile)
next
  case (ClickRetry i a)
  with assms(2) show ?thesis
    by (simp add: invariant_retryUpload)
next
  case (Resume k)
  with assms(2) show ?thesis
    by (simp add: invariant_resume)
qed

lemma invariant_init: "invariant env init"
  by (simp add: invariant_def ids_ok_def tasks_ok_def fields_ok_def init_def)

lemma invariant_run:
  assumes "inj (randomUUID env)" and "invariant env s"
  shows "invariant env (run env evs s)"
  using assms(2) unfolding run_def
  by (induction evs arbitrary: s) (simp_all add: invariant_step [OF assms(1)])

lemma run_snoc: "run env (evs @ [e]) s = step env e (run env evs s)"
  by (simp add: run_def)

section \<open>Reachable states\<close>

lemma inj_env0: "inj (randomUUID env0)"
proof (rule injI)
  fix m n assume "randomUUID env0 m = randomUUID env0 n"
  then have "length (replicate (Suc m) CHR ''u'') = length (replicate (Suc n) CHR ''u'')"
    by (simp add: env0_def)
  then show "m = n" by simp
qed

lemma run_evs_failed:
  "run env0 evs_failed init
     = \<lparr>files = [rec_e],
        fileError = ''Some files were not added: b.txt (unsupported type)'', created = 1,
        requests = [Fetch ''a.png'' ''image/png'', AxiosPut (Some ''https://u'') ''image/png''],
        inflight = []\<rparr>"
  by (simp add: run_def evs_failed_def init_def validateAndAddFiles_def validateAll_def
      validateOne_def ALLOWED_TYPES_def MAX_FILE_SIZE_def file_a_def file_b_def newFileInfo_def
      env0_def call_uploadFile_def uploadFile_sync_def uploadFile_async_def always_fails_def
      attempt_fails_at_40_def catch_block_def setFiles_def resume_def rec_e_def
      percentCompleted_def total_or_size_def percent_of_400_1000)

lemma attempt_a_eq:
  "attempt_a = \<lparr>fetch_result = Fulfilled \<lparr>ok = True, statusText = ''OK'',
                    json = Fulfilled \<lparr>url_p = Some ''https://u'',
                                      key_p = Some ''uploads/123-a.png'', bucket_p = None\<rparr>\<rparr>,
                 progressEvents = [], put_result = Fulfilled ()\<rparr>"
  by (simp add: attempt_a_def reply_a_def get_upload_url_def show_nat_123 fetch_response_def
      reason_phrase_def property_def)

lemma run_evs_retried:
  "run env0 evs_retried init
     = \<lparr>files = [rec_retried],
        fileError = ''Some files were not added: b.txt (unsupported type)'', created = 1,
        requests = [Fetch ''a.png'' ''image/png'', AxiosPut (Some ''https://u'') ''image/png'',
                    Fetch ''a.png'' ''image/png''],
        inflight = [(''u'', [AxiosPut (Some ''https://u'') ''image/png'',
                             SetFiles ''u'' (ToSuccess \<lparr>url_p = Some ''https://u'',
                               key_p = Some ''uploads/123-a.png'', bucket_p = None\<rparr>)])]\<rparr>"
  unfolding evs_retried_def run_snoc run_evs_failed
  by (simp add: retry_buttons_def retryUpload_def call_uploadFile_def uploadFile_sync_def
      uploadFile_async_def attempt_a_eq setFiles_def rec_e_def rec_retried_def)

lemma run_evs_done:
  "run env0 evs_done init
     = \<lparr>files = [rec_done],
        fileError = ''Some files were not added: b.txt (unsupported type)'', created = 1,
        requests = [Fetch ''a.png'' ''image/png'', AxiosPut (Some ''https://u'') ''image/png'',
                    Fetch ''a.png'' ''image/png'', AxiosPut (Some ''https://u'') ''image/png''],
        inflight = []\<rparr>"
proof -
  have "run env0 evs_done init = step env0 (Resume 0) (step env0 (Resume 0) (run env0 evs_retried init))"
    by (simp add: evs_done_def run_def)
  then show ?thesis
    unfolding run_evs_retried
    by (simp add: resume_def setFiles_def rec_retried_def rec_done_def template_def)
qed

text \<open>
  C4 as stated fails: in the session above the record is \<open>uploading\<close> after the click on
  retry and still has its \<open>errorMessage\<close>; when the second attempt has succeeded it is
  \<open>success\<close> and has both a \<open>url\<close> and an \<open>errorMessage\<close>.
\<close>

theorem message_survives_retry_counterexample:
  "files (run env0 evs_retried init) = [rec_retried]
   \<and> status rec_retried = Uploading \<and> errorMessage rec_retried = Some ''Network Error''
   \<and> files (run env0 evs_done init) = [rec_done]
   \<and> status rec_done = Success \<and> errorMessage rec_done = Some ''Network Error''
   \<and> url rec_done = Some ''https://undefined.s3.amazonaws.com/uploads/123-a.png''"
  by (simp add: run_evs_retried run_evs_done rec_retried_def rec_done_def)

text \<open>
  C4, amended. When \<open>randomUUID\<close> never returns an id twice, every state that the component
  reaches from its initial state, by any sequence of selections, removals, clicks on a
  rendered retry button and steps of the uploads in flight, satisfies for every record:
  \<open>url\<close> is present exactly when the status is \<open>success\<close>, and a record in \<open>error\<close> has an
  \<open>errorMessage\<close>.
\<close>

theorem reachable_fields:
  assumes "inj (randomUUID env)"
  shows "\<forall>f \<in> set (files (run env evs init)).
           (url f \<noteq> None \<longleftrightarrow> status f = Success)
           \<and> (status f = Error \<longrightarrow> errorMessage f \<noteq> None)"
proof -
  have "invariant env (run env evs init)"
    by (rule invariant_run [OF assms invariant_init])
  then have "fields_ok (run env evs init)"
    by (simp add: invariant_def)
  then show ?thesis
    by (simp only: fields_ok_def)
qed

theorem reachable_fields_witness:
  "files (run env0 evs_failed init) = [rec_e] \<and> status rec_e = Error
   \<and> errorMessage rec_e \<noteq> None \<and> url rec_e = None"
proof -
  have f: "files (run env0 evs_failed init) = [rec_e]"
    by (simp add: run_evs_failed)
  then have m: "rec_e \<in> set (files (run env0 evs_failed init))"
    by simp
  have s: "status rec_e = Error"
    by (simp add: rec_e_def)
  from reachable_fields [OF inj_env0, of evs_failed] m
  have "(url rec_e \<noteq> None \<longleftrightarrow> status rec_e = Success)
        \<and> (status rec_e = Error \<longrightarrow> errorMessage rec_e \<noteq> None)"
    by blast
  with s have "errorMessage rec_e \<noteq> None \<and> url rec_e = None"
    by simp
  with f s show ?thesis by blast
qed
section \<open>A finished upload stays finished\<close>

lemma files_perform_inflight: "files (perform e (s\<lparr>inflight := ts\<rparr>)) = files (perform e s)"
  by (cases e) simp_all

lemma files_resume_Cons:
  "inflight s ! k = (i, e # es) \<Longrightarrow> files (resume k s) = files (perform e s)"
  by (simp add: resume_def Let_def files_perform_inflight)

lemma rest_ok_SetFiles: "rest_ok i (SetFiles j u # es) \<Longrightarrow> j = i"
  by (cases es; cases u) simp_all

lemma files_resume:
  assumes "tasks_ok s" and k: "k < length (inflight s)"
  shows "files (resume k s) = files s
       \<or> (\<exists>u. files (resume k s) = setFiles (fst (inflight s ! k)) u (files s))"
proof -
  obtain i rest where nth: "inflight s ! k = (i, rest)"
    by force
  from assms have "rest_ok (fst (inflight s ! k)) (snd (inflight s ! k))"
    by (simp add: tasks_ok_def)
  then have ok: "rest_ok i rest"
    by (simp add: nth)
  then obtain e es where rest: "rest = e # es"
    by (cases rest) auto
  have f: "files (resume k s) = files (perform e s)"
    by (rule files_resume_Cons [of s k i e es]) (simp add: nth rest)
  show ?thesis
  proof (cases e)
    case (SetFiles j u)
    with ok rest have "j = i"
      by (auto dest: rest_ok_SetFiles)
    with f SetFiles nth show ?thesis by auto
  next
    case (Fetch x y)
    with f show ?thesis by simp
  next
    case (AxiosPut x y)
    with f show ?thesis by simp
  qed
qed

text \<open>
  C1. When \<open>randomUUID\<close> never returns an id twice, in every state that the component
  reaches: a record in \<open>success\<close> is still in the state, unchanged, after any further
  event, unless the event is the removal of that record; no upload is in flight for it,
  neither in this state nor after the event, so nothing can change it later and no
  authorization or transfer is started for it. The retry button of a record is rendered
  when the record is in \<open>error\<close> and only then; for a record that is \<open>pending\<close>,
  \<open>uploading\<close> or \<open>success\<close> there is no button, and a retry for its id leaves the whole
  state as it is: records, requests issued and uploads in flight.
\<close>

theorem success_is_final:
  assumes "inj (randomUUID env)"
  shows "(\<forall>f \<in> set (files (run env evs init)).
            status f = Success \<longrightarrow>
              (f \<in> set (files (step env e (run env evs init))) \<or> e = ClickRemove (id_f f))
              \<and> id_f f \<notin> fst ` set (inflight (run env evs init))
              \<and> id_f f \<notin> fst ` set (inflight (step env e (run env evs init))))
       \<and> (\<forall>f \<in> set (files (run env evs init)).
            (status f = Error \<longrightarrow> id_f f \<in> set (retry_buttons (files (run env evs init))))
            \<and> (status f \<noteq> Error \<longrightarrow>
                  id_f f \<notin> set (retry_buttons (files (run env evs init)))
                  \<and> step env (ClickRetry (id_f f) a) (run env evs init) = run env evs init))"
proof -
  let ?s = "run env evs init"
  let ?s' = "step env e ?s"
  have I: "invariant env ?s"
    by (rule invariant_run [OF assms invariant_init])
  then have d1: "distinct (map id_f (files ?s))"
    and b1: "\<forall>f \<in> set (files ?s). \<exists>k < created ?s. id_f f = randomUUID env k"
    and tk: "tasks_ok ?s"
    and t2: "\<forall>f \<in> set (files ?s). id_f f \<in> fst ` set (inflight ?s) \<longrightarrow> status f = Uploading"
    by (simp_all add: invariant_def ids_ok_def tasks_ok_def)
  have "invariant env ?s'"
    by (rule invariant_step [OF assms I])
  then have t2': "\<forall>f \<in> set (files ?s'). id_f f \<in> fst ` set (inflight ?s') \<longrightarrow> status f = Uploading"
    by (simp add: invariant_def tasks_ok_def)
  have 1: "f \<in> set (files ?s') \<or> e = ClickRemove (id_f f)"
    if f: "f \<in> set (files ?s)" and su: "status f = Success" for f
  proof (cases e)
    case (SelectFiles selectedFiles attempts)
    obtain newFiles invalidFiles
      where v: "validateAll env (created ?s) selectedFiles = (newFiles, invalidFiles)"
      by force
    have fresh: "\<forall>f \<in> set (files ?s). \<forall>k \<ge> created ?s. id_f f \<noteq> randomUUID env k"
      using b1 inj_lt_ge [OF assms] by metis
    from state_after_intake(1) [OF v fresh, of attempts] f
    have "f \<in> set (files (validateAndAddFiles env attempts selectedFiles ?s))"
      by simp
    with f SelectFiles show ?thesis by simp
  next
    case (ClickRemove j)
    with f show ?thesis
      by (auto simp: removeFile_def)
  next
    case (ClickRetry j a')
    show ?thesis
    proof (cases "j \<in> set (retry_buttons (files ?s))")
      case False
      with ClickRetry f show ?thesis by simp
    next
      case True
      then obtain g where g: "g \<in> set (files ?s)" "id_f g = j" "status g = Error"
        by (auto simp: retry_buttons_def)
      have "id_f f \<noteq> j"
      proof
        assume "id_f f = j"
        with same_id_same_record [OF d1 f g(1)] g(2) have "f = g" by simp
        with su g(3) show False by simp
      qed
      moreover from g have "find (\<lambda>f. id_f f = j) (files ?s) \<noteq> None"
        by (auto simp: find_None_iff)
      then obtain h where "find (\<lambda>f. id_f f = j) (files ?s) = Some h"
        by blast
      then have "retryUpload j a' ?s = call_uploadFile h a' ?s" and "id_f h = j"
        by (rule retryUpload_found)+
      then have "files (retryUpload j a' ?s) = setFiles j ToUploading (files ?s)"
        by simp
      ultimately have "f \<in> set (files (retryUpload j a' ?s))"
        using f by (simp add: setFiles_other)
      with ClickRetry True show ?thesis by simp
    qed
  next
    case (Resume k)
    show ?thesis
    proof (cases "k < length (inflight ?s)")
      case False
      with Resume f show ?thesis by simp
    next
      case True
      from files_resume [OF tk True] have "f \<in> set (files (resume k ?s))"
      proof
        assume "files (resume k ?s) = files ?s"
        with f show ?thesis by simp
      next
        assume "\<exists>u. files (resume k ?s) = setFiles (fst (inflight ?s ! k)) u (files ?s)"
        then obtain u where u: "files (resume k ?s) = setFiles (fst (inflight ?s ! k)) u (files ?s)"
          by blast
        have here: "fst (inflight ?s ! k) \<in> fst ` set (inflight ?s)"
          using True by simp
        have ne: "id_f f \<noteq> fst (inflight ?s ! k)"
        proof
          assume "id_f f = fst (inflight ?s ! k)"
          with here have "id_f f \<in> fst ` set (inflight ?s)" by simp
          with t2 f have "status f = Uploading" by blast
          with su show False by simp
        qed
        show ?thesis
          unfolding u using ne f by (rule setFiles_other)
      qed
      with Resume True show ?thesis by simp
    qed
  qed
  have 2: "id_f f \<notin> fst ` set (inflight ?s)"
    if f: "f \<in> set (files ?s)" and su: "status f = Success" for f
  proof
    assume "id_f f \<in> fst ` set (inflight ?s)"
    with t2 f have "status f = Uploading" by blast
    with su show False by simp
  qed
  have 3: "id_f f \<notin> fst ` set (inflight ?s')"
    if f: "f \<in> set (files ?s)" and su: "status f = Success" for f
  proof
    assume m: "id_f f \<in> fst ` set (inflight ?s')"
    from 1 [OF f su] show False
    proof
      assume "f \<in> set (files ?s')"
      with t2' m have "status f = Uploading" by blast
      with su show False by simp
    next
      assume "e = ClickRemove (id_f f)"
      then have "inflight ?s' = inflight ?s" by simp
      with m 2 [OF f su] show False by simp
    qed
  qed
  have 4: "id_f f \<in> set (retry_buttons (files ?s))"
    if "f \<in> set (files ?s)" "status f = Error" for f
    using that by (auto simp: retry_buttons_def)
  have 5: "id_f f \<notin> set (retry_buttons (files ?s))"
    if f: "f \<in> set (files ?s)" and ne: "status f \<noteq> Error" for f
  proof
    assume "id_f f \<in> set (retry_buttons (files ?s))"
    then obtain g where g: "g \<in> set (files ?s)" "id_f g = id_f f" "status g = Error"
      by (auto simp: retry_buttons_def)
    from same_id_same_record [OF d1 g(1) f g(2)] have "g = f" .
    with g(3) ne show False by simp
  qed
  have 6: "step env (ClickRetry (id_f f) a) ?s = ?s"
    if "f \<in> set (files ?s)" "status f \<noteq> Error" for f
    using 5 [OF that] by simp
  from 1 2 3 4 5 6 show ?thesis by blast
qed

theorem success_is_final_witness:
  "files (run env0 evs_done init) = [rec_done] \<and> status rec_done = Success
   \<and> rec_done \<in> set (files (step env0 (Resume 0) (run env0 evs_done init)))
   \<and> rec_done \<in> set (files (step env0 (ClickRetry ''u'' attempt_a) (run env0 evs_done init)))
   \<and> ''u'' \<notin> fst ` set (inflight (step env0 (ClickRetry ''u'' attempt_a)
                                        (run env0 evs_done init)))
   \<and> ''u'' \<notin> set (retry_buttons (files (run env0 evs_done init)))
   \<and> step env0 (ClickRetry ''u'' attempt_a) (run env0 evs_done init) = run env0 evs_done init
   \<and> files (run env0 evs_retried init) = [rec_retried] \<and> status rec_retried = Uploading
   \<and> step env0 (ClickRetry ''u'' attempt_a) (run env0 evs_retried init)
       = run env0 evs_retried init
   \<and> files (run env0 evs_failed init) = [rec_e] \<and> status rec_e = Error
   \<and> ''u'' \<in> set (retry_buttons (files (run env0 evs_failed init)))"
proof -
  have f: "files (run env0 evs_done init) = [rec_done]"
    by (simp add: run_evs_done)
  then have m: "rec_done \<in> set (files (run env0 evs_done init))"
    by simp
  have s: "status rec_done = Success" and i: "id_f rec_done = ''u''"
    by (simp_all add: rec_done_def)
  then have n: "status rec_done \<noteq> Error"
    by simp
  note T1 = success_is_final [OF inj_env0, of evs_done "Resume 0" attempt_a]
  note T2 = success_is_final [OF inj_env0, of evs_done "ClickRetry ''u'' attempt_a" attempt_a]
  from T1 m s
  have 1: "rec_done \<in> set (files (step env0 (Resume 0) (run env0 evs_done init)))"
    by blast
  from T2 m s
  have 2: "rec_done \<in> set (files (step env0 (ClickRetry ''u'' attempt_a) (run env0 evs_done init)))"
    by blast
  from T2 m s
  have "id_f rec_done \<notin> fst ` set (inflight (step env0 (ClickRetry ''u'' attempt_a)
                                                 (run env0 evs_done init)))"
    by blast
  then have 3: "''u'' \<notin> fst ` set (inflight (step env0 (ClickRetry ''u'' attempt_a)
                                                 (run env0 evs_done init)))"
    unfolding i .
  from T2 m n
  have "id_f rec_done \<notin> set (retry_buttons (files (run env0 evs_done init)))
        \<and> step env0 (ClickRetry (id_f rec_done) attempt_a) (run env0 evs_done init)
            = run env0 evs_done init"
    by blast
  then have 4: "''u'' \<notin> set (retry_buttons (files (run env0 evs_done init)))"
    and 5: "step env0 (ClickRetry ''u'' attempt_a) (run env0 evs_done init)
              = run env0 evs_done init"
    unfolding i by blast+
  have f': "files (run env0 evs_retried init) = [rec_retried]"
    by (simp add: run_evs_retried)
  then have m': "rec_retried \<in> set (files (run env0 evs_retried init))"
    by simp
  have s': "status rec_retried = Uploading" and i': "id_f rec_retried = ''u''"
    by (simp_all add: rec_retried_def)
  then have n': "status rec_retried \<noteq> Error"
    by simp
  from success_is_final [OF inj_env0, of evs_retried _ attempt_a] m' n'
  have "step env0 (ClickRetry (id_f rec_retried) attempt_a) (run env0 evs_retried init)
            = run env0 evs_retried init"
    by blast
  then have 6: "step env0 (ClickRetry ''u'' attempt_a) (run env0 evs_retried init)
                  = run env0 evs_retried init"
    unfolding i' .
  have f'': "files (run env0 evs_failed init) = [rec_e]"
    by (simp add: run_evs_failed)
  then have m'': "rec_e \<in> set (files (run env0 evs_failed init))"
    by simp
  have s'': "status rec_e = Error" and i'': "id_f rec_e = ''u''"
    by (simp_all add: rec_e_def)
  from success_is_final [OF inj_env0, of evs_failed _ attempt_a] m'' s''
  have "id_f rec_e \<in> set (retry_buttons (files (run env0 evs_failed init)))"
    by blast
  then have 7: "''u'' \<in> set (retry_buttons (files (run env0 evs_failed init)))"
    unfolding i'' .
  from f s 1 2 3 4 5 f' s' 6 f'' s'' 7 show ?thesis by blast
qed

section \<open>The double arithmetic is monotone\<close>






















section \<open>Progress during the transfer\<close>










end
